theory Spec2Isabelle
  imports Main
begin

section \<open>Python values and exceptions\<close>

text \<open>
  Plug values, the keyword arguments and the result of \<open>compute\<close>, and the documents
  read by \<open>deserialize\<close> are Python objects. The model keeps the JSON-like ones; a
  dictionary is an association list whose order is the iteration order.
\<close>

datatype pyval =
    PNone
  | PBool bool
  | PInt int
  | PStr string
  | PList "pyval list"
  | PDict "(string \<times> pyval) list"

text \<open>
  The exceptions. \<open>KeyError\<close>, \<open>TypeError\<close> and \<open>AttributeError\<close> are Python's own;
  \<open>Exception\<close> stands for any other exception a caller-supplied \<open>compute\<close> raises.
  \<open>ComputeError\<close>, \<open>UnknownOutputError\<close> and \<open>SerializationError\<close> are the names of the
  specification's error taxonomy: no statement of \<open>node.py\<close> raises them.
\<close>

datatype exn =
    KeyError pyval
  | TypeError
  | AttributeError
  | Exception string
  | ComputeError
  | UnknownOutputError
  | SerializationError

text \<open>Truth value of an object, as \<open>x or dict()\<close> tests it.\<close>

fun py_truthy :: "pyval \<Rightarrow> bool" where
  "py_truthy PNone = False"
| "py_truthy (PBool b) = b"
| "py_truthy (PInt i) = (i \<noteq> 0)"
| "py_truthy (PStr s) = (s \<noteq> [])"
| "py_truthy (PList xs) = (xs \<noteq> [])"
| "py_truthy (PDict d) = (d \<noteq> [])"

text \<open>\<open>x.items()\<close>: only a dictionary has the method.\<close>

fun py_items :: "pyval \<Rightarrow> exn + (string \<times> pyval) list" where
  "py_items (PDict d) = Inr d"
| "py_items x = Inl AttributeError"

text \<open>\<open>x[k]\<close> for a string key \<open>k\<close>: a dictionary looks the key up, every other object
  of the model refuses a string subscript.\<close>

fun py_subscript :: "pyval \<Rightarrow> string \<Rightarrow> exn + pyval" where
  "py_subscript (PDict d) k =
     (case map_of d k of None \<Rightarrow> Inl (KeyError (PStr k)) | Some v \<Rightarrow> Inr v)"
| "py_subscript x k = Inl TypeError"

text \<open>\<open>for x in xs\<close>: a list yields its elements, a dictionary its keys, a string its
  characters; the other objects are not iterable.\<close>

fun py_iter :: "pyval \<Rightarrow> exn + pyval list" where
  "py_iter (PList xs) = Inr xs"
| "py_iter (PDict d) = Inr (map (\<lambda>kv. PStr (fst kv)) d)"
| "py_iter (PStr s) = Inr (map (\<lambda>c. PStr [c]) s)"
| "py_iter x = Inl TypeError"

text \<open>\<open>d[k]\<close> on a dictionary with string keys (\<open>self.inputs\<close>, \<open>self.outputs\<close>) for an
  arbitrary key object: lists and dictionaries are unhashable, any other object that is
  not one of the keys raises \<open>KeyError\<close>.\<close>

fun dict_getitem :: "(string \<times> 'a) list \<Rightarrow> pyval \<Rightarrow> exn + 'a" where
  "dict_getitem d (PStr k) =
     (case map_of d k of None \<Rightarrow> Inl (KeyError (PStr k)) | Some v \<Rightarrow> Inr v)"
| "dict_getitem d (PList xs) = Inl TypeError"
| "dict_getitem d (PDict ys) = Inl TypeError"
| "dict_getitem d k = Inl (KeyError k)"

section \<open>The object store\<close>

text \<open>
  Nodes and plugs are objects that refer to each other (a plug to its node and to the
  plugs it is connected to, a node to its plugs), so they live in a store addressed by
  references.
\<close>

type_synonym ref = nat

text \<open>Modelled from the spec: the class of plugs, \<open>flowpipe/plug.py\<close>, is not among the
  sources. Section 3 gives a plug the fields \<open>name\<close>, \<open>node\<close> (the back-reference to the
  owning node), \<open>value\<close>, \<open>is_dirty\<close> and \<open>connections\<close> (references to other plugs).
  Compound plugs are not modelled: \<open>node.py\<close> reaches a plug only through these five
  attributes and \<open>serialize\<close>.\<close>

record plug =
  plug_name :: string
  plug_node :: ref
  plug_value :: pyval
  plug_is_dirty :: bool
  plug_connections :: "ref list"

text \<open>\<open>INode\<close>: the attributes set by \<open>__init__\<close>, and the two names of the object's class
  that \<open>serialize\<close> reads (\<open>__module__\<close>, \<open>__class__.__name__\<close>). \<open>inputs\<close> and \<open>outputs\<close>
  are dictionaries from plug name to plug object.\<close>

record inode =
  node_module :: string
  node_cls :: string
  node_name :: pyval
  node_identifier :: pyval
  inputs :: "(string \<times> ref) list"
  outputs :: "(string \<times> ref) list"

text \<open>A message of the log: \<open>Computed n\<close> is the text \<open>'Computed: {}'.format(n)\<close>, kept as
  the format's argument (the rendering of a Python object as text is not modelled).\<close>

datatype message = Computed pyval

text \<open>The store: the node objects, the plug objects, and the messages pushed to the log
  so far.\<close>

record heap =
  nodes :: "ref \<Rightarrow> inode"
  plugs :: "ref \<Rightarrow> plug"
  messages :: "message list"

section \<open>Plug operations\<close>

text \<open>Modelled from the spec: reading \<open>plug.value\<close>, \<open>plug.is_dirty\<close>, \<open>plug.connections\<close>
  and \<open>plug.node\<close> (the class of plugs is absent) reads the field of section 3.\<close>

definition get_value :: "heap \<Rightarrow> ref \<Rightarrow> pyval" where
  "get_value h p = plug_value (plugs h p)"

definition get_is_dirty :: "heap \<Rightarrow> ref \<Rightarrow> bool" where
  "get_is_dirty h p = plug_is_dirty (plugs h p)"

definition connections :: "heap \<Rightarrow> ref \<Rightarrow> ref list" where
  "connections h p = plug_connections (plugs h p)"

definition node_of :: "heap \<Rightarrow> ref \<Rightarrow> ref" where
  "node_of h p = plug_node (plugs h p)"

text \<open>Modelled from the spec: the assignment \<open>plug.is_dirty = status\<close> (the class of plugs
  is absent). Section 3 has \<open>is_dirty\<close> as a boolean of the plug and section 4.1 lists no
  operation for it; what triggers the dirty-propagation hook is the assignment of a
  value (section 4.1, and section 4.3: "whether via direct value assignment or via an
  upstream push"), and the hook's effect is that the plugs directly connected to the
  outputs are marked dirty (section 4.3). So the assignment stores the flag and does
  nothing else. Section 4.3 also speaks of an input plug that "becomes dirty"; if the
  assignment of the flag ran the hook as well, more plugs would be dirty after a write,
  never fewer. The statements below about dirty flags after a write say which flags are
  set and which are kept, not which stay clear, so they hold under either reading.\<close>

definition set_is_dirty :: "ref \<Rightarrow> bool \<Rightarrow> heap \<Rightarrow> heap" where
  "set_is_dirty p status h =
     h\<lparr>plugs := (plugs h)(p := (plugs h p)\<lparr>plug_is_dirty := status\<rparr>)\<rparr>"

section \<open>INode\<close>

text \<open>\<open>INode.is_dirty\<close>: the loop over \<open>self.inputs.values()\<close> returns at the first dirty
  plug.\<close>

fun is_dirty_loop :: "heap \<Rightarrow> ref list \<Rightarrow> bool" where
  "is_dirty_loop h [] = False"
| "is_dirty_loop h (inp # rest) =
     (if get_is_dirty h inp then True else is_dirty_loop h rest)"

definition is_dirty :: "ref \<Rightarrow> heap \<Rightarrow> bool" where
  "is_dirty self h = is_dirty_loop h (map snd (inputs (nodes h self)))"

text \<open>\<open>list(set(xs))\<close>: every element of \<open>xs\<close> once. Python leaves the order of the
  result open; the model keeps the order of \<open>remdups\<close>, and no statement below depends
  on it. Nodes are compared by identity, which is equality of references.\<close>

definition list_of_set :: "'a list \<Rightarrow> 'a list" where
  "list_of_set xs = remdups xs"

text \<open>\<open>INode.upstream_nodes\<close> and \<open>INode.downstream_nodes\<close>: the loop appends, for each
  plug, the owners of its connections.\<close>

fun collect_nodes :: "heap \<Rightarrow> ref list \<Rightarrow> ref list \<Rightarrow> ref list" where
  "collect_nodes h acc [] = acc"
| "collect_nodes h acc (p # rest) =
     collect_nodes h (acc @ map (\<lambda>c. node_of h c) (connections h p)) rest"

definition upstream_nodes :: "ref \<Rightarrow> heap \<Rightarrow> ref list" where
  "upstream_nodes self h =
     list_of_set (collect_nodes h [] (map snd (inputs (nodes h self))))"

definition downstream_nodes :: "ref \<Rightarrow> heap \<Rightarrow> ref list" where
  "downstream_nodes self h =
     list_of_set (collect_nodes h [] (map snd (outputs (nodes h self))))"

text \<open>\<open>INode.on_input_plug_set_dirty\<close>: for every output plug, every connected plug is
  assigned \<open>is_dirty = True\<close>. The argument \<open>input_plug\<close> is not used by the body.\<close>

definition on_input_plug_set_dirty :: "ref \<Rightarrow> ref \<Rightarrow> heap \<Rightarrow> heap" where
  "on_input_plug_set_dirty self input_plug h =
     fold (\<lambda>output_plug h1.
             fold (\<lambda>connected_plug h2. set_is_dirty connected_plug True h2)
                  (connections h1 output_plug) h1)
          (map snd (outputs (nodes h self))) h"

text \<open>Modelled from the spec: the assignment \<open>plug.value = v\<close> to an input plug and to an
  output plug (the class of plugs is absent). Section 4.1: setting an input plug's value
  marks it dirty and triggers the owning node's dirty-propagation hook, which is
  \<open>on_input_plug_set_dirty\<close> above; setting an output plug's value pushes the value to the
  values of all connected input plugs, each marked dirty in its turn, and does not mark
  the output itself dirty. \<open>evaluate\<close> assigns to plugs of \<open>self.outputs\<close>, \<open>deserialize\<close> to
  plugs of \<open>self.inputs\<close>.\<close>

definition input_set_value :: "ref \<Rightarrow> pyval \<Rightarrow> heap \<Rightarrow> heap" where
  "input_set_value p v h =
     (let h1 = h\<lparr>plugs := (plugs h)(p := (plugs h p)\<lparr>plug_value := v, plug_is_dirty := True\<rparr>)\<rparr>
      in on_input_plug_set_dirty (node_of h1 p) p h1)"

definition output_set_value :: "ref \<Rightarrow> pyval \<Rightarrow> heap \<Rightarrow> heap" where
  "output_set_value p v h =
     (let h1 = h\<lparr>plugs := (plugs h)(p := (plugs h p)\<lparr>plug_value := v\<rparr>)\<rparr>
      in fold (\<lambda>c h2. input_set_value c v h2) (connections h1 p) h1)"

text \<open>Modelled from the spec: \<open>LogObserver.push_message\<close> (\<open>flowpipe/log_observer.py\<close> is not
  among the sources). Section 6 describes a process-wide append-only sink.\<close>

definition push_message :: "message \<Rightarrow> heap \<Rightarrow> heap" where
  "push_message m h = h\<lparr>messages := messages h @ [m]\<rparr>"

text \<open>\<open>INode.evaluate\<close>. An exception leaves the store as it is at the raise, so a failure
  is the exception together with that store. \<open>compute\<close> is the method of the concrete
  node class: a function from the keyword arguments to an exception or a result.\<close>

type_synonym compute = "(string \<times> pyval) list \<Rightarrow> exn + pyval"

definition read_inputs :: "ref \<Rightarrow> heap \<Rightarrow> (string \<times> pyval) list" where
  "read_inputs self h = map (\<lambda>(name, plug). (name, get_value h plug)) (inputs (nodes h self))"

fun write_outputs :: "ref \<Rightarrow> (string \<times> pyval) list \<Rightarrow> heap \<Rightarrow> (exn \<times> heap) + heap" where
  "write_outputs self [] h = Inr h"
| "write_outputs self ((name, v) # rest) h =
     (case map_of (outputs (nodes h self)) name of
        None \<Rightarrow> Inl (KeyError (PStr name), h)
      | Some plug \<Rightarrow> write_outputs self rest (output_set_value plug v h))"

definition clean_inputs :: "ref \<Rightarrow> heap \<Rightarrow> heap" where
  "clean_inputs self h =
     fold (\<lambda>inp h1. set_is_dirty inp False h1) (map snd (inputs (nodes h self))) h"

definition evaluate :: "compute \<Rightarrow> ref \<Rightarrow> heap \<Rightarrow> (exn \<times> heap) + (pyval \<times> heap)" where
  "evaluate compute self h =
     (case compute (read_inputs self h) of
        Inl e \<Rightarrow> Inl (e, h)
      | Inr r \<Rightarrow>
          (let outputs = (if py_truthy r then r else PDict []) in
           case py_items outputs of
             Inl e \<Rightarrow> Inl (e, h)
           | Inr items \<Rightarrow>
               (case write_outputs self items h of
                  Inl eh \<Rightarrow> Inl eh
                | Inr h1 \<Rightarrow>
                    Inr (outputs,
                         push_message (Computed (node_name (nodes h1 self))) (clean_inputs self h1)))))"

text \<open>Modelled from the spec: \<open>plug.serialize()\<close> (the class of plugs is absent). Section 6:
  the document of a simple plug is \<open>{name, value}\<close>.\<close>

definition plug_serialize :: "heap \<Rightarrow> ref \<Rightarrow> pyval" where
  "plug_serialize h p =
     PDict [(''name'', PStr (plug_name (plugs h p))), (''value'', plug_value (plugs h p))]"

text \<open>\<open>INode.serialize\<close>.\<close>

definition serialize :: "ref \<Rightarrow> heap \<Rightarrow> pyval" where
  "serialize self h =
     PDict [(''module'', PStr (node_module (nodes h self))),
            (''cls'', PStr (node_cls (nodes h self))),
            (''name'', node_name (nodes h self)),
            (''identifier'', node_identifier (nodes h self)),
            (''inputs'', PList (map (\<lambda>plug. plug_serialize h plug)
                                    (map snd (inputs (nodes h self))))),
            (''outputs'', PList (map (\<lambda>plug. plug_serialize h plug)
                                     (map snd (outputs (nodes h self)))))]"

text \<open>\<open>INode.deserialize\<close>. In the assignment
  \<open>self.inputs[input_['name']].value = input_['value']\<close> Python evaluates the right-hand
  side first, then the target.\<close>

fun deserialize_inputs :: "ref \<Rightarrow> pyval list \<Rightarrow> heap \<Rightarrow> (exn \<times> heap) + heap" where
  "deserialize_inputs self [] h = Inr h"
| "deserialize_inputs self (inp # rest) h =
     (case py_subscript inp ''value'' of
        Inl e \<Rightarrow> Inl (e, h)
      | Inr v \<Rightarrow>
          (case py_subscript inp ''name'' of
             Inl e \<Rightarrow> Inl (e, h)
           | Inr k \<Rightarrow>
               (case dict_getitem (inputs (nodes h self)) k of
                  Inl e \<Rightarrow> Inl (e, h)
                | Inr plug \<Rightarrow> deserialize_inputs self rest (input_set_value plug v h))))"

definition set_name :: "ref \<Rightarrow> pyval \<Rightarrow> heap \<Rightarrow> heap" where
  "set_name self v h = h\<lparr>nodes := (nodes h)(self := (nodes h self)\<lparr>node_name := v\<rparr>)\<rparr>"

definition set_identifier :: "ref \<Rightarrow> pyval \<Rightarrow> heap \<Rightarrow> heap" where
  "set_identifier self v h = h\<lparr>nodes := (nodes h)(self := (nodes h self)\<lparr>node_identifier := v\<rparr>)\<rparr>"

definition deserialize :: "ref \<Rightarrow> pyval \<Rightarrow> heap \<Rightarrow> (exn \<times> heap) + heap" where
  "deserialize self data h =
     (case py_subscript data ''name'' of
        Inl e \<Rightarrow> Inl (e, h)
      | Inr n \<Rightarrow>
          (let h1 = set_name self n h in
           case py_subscript data ''identifier'' of
             Inl e \<Rightarrow> Inl (e, h1)
           | Inr i \<Rightarrow>
               (let h2 = set_identifier self i h1 in
                case py_subscript data ''inputs'' of
                  Inl e \<Rightarrow> Inl (e, h2)
                | Inr ins \<Rightarrow>
                    (case py_iter ins of
                       Inl e \<Rightarrow> Inl (e, h2)
                     | Inr docs \<Rightarrow> deserialize_inputs self docs h2))))"

section \<open>Reading the outcome of a call and a plug document\<close>

text \<open>The exception of a call that raised, \<open>None\<close> for a call that returned.\<close>

definition raised :: "(exn \<times> heap) + 'a \<Rightarrow> exn option" where
  "raised r = (case r of Inl (e, h) \<Rightarrow> Some e | Inr x \<Rightarrow> None)"

text \<open>The store a call of \<open>deserialize\<close> leaves, whether it returned or raised.\<close>

definition store_after :: "(exn \<times> heap) + heap \<Rightarrow> heap" where
  "store_after r = (case r of Inl (e, h) \<Rightarrow> h | Inr h \<Rightarrow> h)"

text \<open>The document of a plug (section 6 of the specification: \<open>{name, value}\<close>) as the
  loop of \<open>deserialize\<close> reads it: \<open>plug_doc x = Some (k, v)\<close> when \<open>x\<close> is a dictionary
  whose \<open>'name'\<close> is the string \<open>k\<close> and whose \<open>'value'\<close> is \<open>v\<close>. It is used to state which
  documents a theorem is about.\<close>

fun plug_doc :: "pyval \<Rightarrow> (string \<times> pyval) option" where
  "plug_doc (PDict dd) =
     (case (map_of dd ''name'', map_of dd ''value'') of
        (Some (PStr k), Some v) \<Rightarrow> Some (k, v)
      | _ \<Rightarrow> None)"
| "plug_doc x = None"

section \<open>Examples\<close>

text \<open>Nodes of the test suite's class \<open>NodeForTesting\<close> (plugs \<open>out\<close>, \<open>out2\<close>, \<open>in1\<close>,
  \<open>in2\<close>): \<open>Start\<close> (node 0, plugs 0 to 3) and \<open>Node1\<close> (node 1, plugs 4 to 7), with
  \<open>Start.out >> Node1.in1\<close> and \<open>Start.out2 >> Node1.in2\<close>, so that the two nodes are
  connected twice, and a third node (node 2, plugs 8 to 11) with the default name, no
  input value and no connection. A connection is recorded at both of its ends.\<close>

definition mk_plug :: "string \<Rightarrow> ref \<Rightarrow> pyval \<Rightarrow> bool \<Rightarrow> ref list \<Rightarrow> plug" where
  "mk_plug n owner v d cs =
     \<lparr>plug_name = n, plug_node = owner, plug_value = v, plug_is_dirty = d, plug_connections = cs\<rparr>"

definition testing_node :: "string \<Rightarrow> ref \<Rightarrow> inode" where
  "testing_node n base =
     \<lparr>node_module = ''conftest'', node_cls = ''NodeForTesting'',
      node_name = PStr n, node_identifier = PStr (n @ ''-0001''),
      inputs = [(''in1'', base + 2), (''in2'', base + 3)],
      outputs = [(''out'', base), (''out2'', base + 1)]\<rparr>"

definition example_nodes :: "ref \<Rightarrow> inode" where
  "example_nodes = (\<lambda>r. testing_node ''Unused'' 100)
     (0 := testing_node ''Start'' 0, 1 := testing_node ''Node1'' 4,
      2 := testing_node ''NodeForTesting'' 8)"

definition example_plugs :: "ref \<Rightarrow> plug" where
  "example_plugs = (\<lambda>r. mk_plug ''unused'' 100 PNone False [])
     (0 := mk_plug ''out'' 0 PNone False [6],
      1 := mk_plug ''out2'' 0 (PInt 5) False [7],
      2 := mk_plug ''in1'' 0 (PInt 2) True [],
      3 := mk_plug ''in2'' 0 (PInt 3) False [],
      4 := mk_plug ''out'' 1 (PInt 9) False [],
      5 := mk_plug ''out2'' 1 PNone False [],
      6 := mk_plug ''in1'' 1 PNone False [0],
      7 := mk_plug ''in2'' 1 (PInt 4) False [1],
      8 := mk_plug ''out'' 2 PNone False [],
      9 := mk_plug ''out2'' 2 PNone False [],
      10 := mk_plug ''in1'' 2 PNone True [],
      11 := mk_plug ''in2'' 2 PNone True [])"

definition example_heap :: heap where
  "example_heap = \<lparr>nodes = example_nodes, plugs = example_plugs, messages = []\<rparr>"

text \<open>\<open>Start\<close> and \<open>Node1\<close> wired with feedback: \<open>Start.out >> Start.in1\<close>,
  \<open>Start.out >> Node1.in1\<close> and \<open>Node1.out >> Start.in2\<close>. \<open>Start.in1\<close> is dirty, every other
  plug is clean.\<close>

definition feedback_plugs :: "ref \<Rightarrow> plug" where
  "feedback_plugs = (\<lambda>r. mk_plug ''unused'' 100 PNone False [])
     (0 := mk_plug ''out'' 0 PNone False [2, 6],
      1 := mk_plug ''out2'' 0 (PInt 5) False [],
      2 := mk_plug ''in1'' 0 (PInt 2) True [0],
      3 := mk_plug ''in2'' 0 (PInt 3) False [4],
      4 := mk_plug ''out'' 1 (PInt 9) False [3],
      5 := mk_plug ''out2'' 1 PNone False [],
      6 := mk_plug ''in1'' 1 PNone False [0],
      7 := mk_plug ''in2'' 1 (PInt 4) False [])"

definition feedback_heap :: heap where
  "feedback_heap = \<lparr>nodes = example_nodes, plugs = feedback_plugs, messages = []\<rparr>"

text \<open>\<open>NodeForTesting.compute\<close> of the test suite (\<open>conftest.py\<close>):
  \<open>def compute(self, in1, in2): return {'out': in1 * in2, 'out2': None}\<close>.
  The call \<open>compute(**inputs)\<close> raises \<open>TypeError\<close> unless the keyword arguments are exactly
  \<open>in1\<close> and \<open>in2\<close>. \<open>py_mul\<close> is Python's \<open>*\<close> on the modelled objects: the product of two
  integers (a boolean counts as 0 or 1), a string or a list repeated an integer number
  of times (not at all for a negative number), and \<open>TypeError\<close> for any other pair.\<close>

fun py_int :: "pyval \<Rightarrow> int option" where
  "py_int (PInt i) = Some i"
| "py_int (PBool b) = Some (if b then 1 else 0)"
| "py_int x = None"

fun py_repeat :: "pyval \<Rightarrow> int \<Rightarrow> exn + pyval" where
  "py_repeat (PStr s) n = Inr (PStr (concat (replicate (nat n) s)))"
| "py_repeat (PList xs) n = Inr (PList (concat (replicate (nat n) xs)))"
| "py_repeat x n = Inl TypeError"

definition py_mul :: "pyval \<Rightarrow> pyval \<Rightarrow> exn + pyval" where
  "py_mul a b =
     (case (py_int a, py_int b) of
        (Some i, Some j) \<Rightarrow> Inr (PInt (i * j))
      | (None, Some j) \<Rightarrow> py_repeat a j
      | (Some i, None) \<Rightarrow> py_repeat b i
      | (None, None) \<Rightarrow> Inl TypeError)"

definition testing_compute :: compute where
  "testing_compute kwargs =
     (case (map_of kwargs ''in1'', map_of kwargs ''in2'') of
        (Some in1, Some in2) \<Rightarrow>
          (if list_all (\<lambda>kv. fst kv = ''in1'' \<or> fst kv = ''in2'') kwargs
           then (case py_mul in1 in2 of
                   Inl e \<Rightarrow> Inl e
                 | Inr v \<Rightarrow> Inr (PDict [(''out'', v), (''out2'', PNone)]))
           else Inl TypeError)
      | _ \<Rightarrow> Inl TypeError)"

text \<open>Two examples of a caller-supplied \<open>compute\<close>: \<open>failing_compute\<close> raises,
  \<open>stray_key_compute\<close> returns a key that names no output plug of \<open>NodeForTesting\<close>.\<close>

definition failing_compute :: compute where
  "failing_compute kwargs = Inl (Exception ''boom'')"

definition stray_key_compute :: compute where
  "stray_key_compute kwargs = Inr (PDict [(''out'', PInt 6), (''nope'', PInt 1)])"

text \<open>\<open>only_out_compute\<close> returns \<open>out\<close> only, \<open>silent_compute\<close> returns \<open>None\<close>.\<close>

definition only_out_compute :: compute where
  "only_out_compute kwargs = Inr (PDict [(''out'', PInt 6)])"

definition silent_compute :: compute where
  "silent_compute kwargs = Inr PNone"

text \<open>A document for \<open>Start\<close> that keeps its name and identifier and gives \<open>in2\<close> the value
  it has.\<close>

definition same_doc :: pyval where
  "same_doc =
     PDict [(''module'', PStr ''conftest''), (''cls'', PStr ''NodeForTesting''),
            (''name'', PStr ''Start''), (''identifier'', PStr ''Start-0001''),
            (''inputs'', PList [PDict [(''name'', PStr ''in2''), (''value'', PInt 3)]]),
            (''outputs'', PList [])]"

section \<open>What the plug operations change\<close>

lemmas example_defs = example_heap_def example_nodes_def example_plugs_def testing_node_def mk_plug_def

lemma set_is_dirty_frame [simp]:
  "nodes (set_is_dirty p b h) = nodes h"
  "messages (set_is_dirty p b h) = messages h"
  "connections (set_is_dirty p b h) q = connections h q"
  "get_value (set_is_dirty p b h) q = get_value h q"
  "node_of (set_is_dirty p b h) q = node_of h q"
  "plug_name (plugs (set_is_dirty p b h) q) = plug_name (plugs h q)"
  by (simp_all add: set_is_dirty_def connections_def get_value_def node_of_def)

lemma get_is_dirty_set_is_dirty [simp]:
  "get_is_dirty (set_is_dirty p b h) q = (if q = p then b else get_is_dirty h q)"
  by (simp add: set_is_dirty_def get_is_dirty_def)

lemma mark_frame [simp]:
  "nodes (fold (\<lambda>c h2. set_is_dirty c b h2) cs h) = nodes h"
  "messages (fold (\<lambda>c h2. set_is_dirty c b h2) cs h) = messages h"
  "connections (fold (\<lambda>c h2. set_is_dirty c b h2) cs h) q = connections h q"
  "get_value (fold (\<lambda>c h2. set_is_dirty c b h2) cs h) q = get_value h q"
  "node_of (fold (\<lambda>c h2. set_is_dirty c b h2) cs h) q = node_of h q"
  "plug_name (plugs (fold (\<lambda>c h2. set_is_dirty c b h2) cs h) q) = plug_name (plugs h q)"
  by (induction cs arbitrary: h; simp)+

lemma get_is_dirty_mark [simp]:
  "get_is_dirty (fold (\<lambda>c h2. set_is_dirty c b h2) cs h) q =
     (if q \<in> set cs then b else get_is_dirty h q)"
  by (induction cs arbitrary: h) auto

lemma hook_loop_frame [simp]:
  "nodes (fold (\<lambda>o' h1. fold (\<lambda>c h2. set_is_dirty c True h2) (connections h1 o') h1) os h) = nodes h"
  "messages (fold (\<lambda>o' h1. fold (\<lambda>c h2. set_is_dirty c True h2) (connections h1 o') h1) os h) = messages h"
  "connections (fold (\<lambda>o' h1. fold (\<lambda>c h2. set_is_dirty c True h2) (connections h1 o') h1) os h) q = connections h q"
  "get_value (fold (\<lambda>o' h1. fold (\<lambda>c h2. set_is_dirty c True h2) (connections h1 o') h1) os h) q = get_value h q"
  "node_of (fold (\<lambda>o' h1. fold (\<lambda>c h2. set_is_dirty c True h2) (connections h1 o') h1) os h) q = node_of h q"
  "plug_name (plugs (fold (\<lambda>o' h1. fold (\<lambda>c h2. set_is_dirty c True h2) (connections h1 o') h1) os h) q) = plug_name (plugs h q)"
  by (induction os arbitrary: h; simp)+

lemma get_is_dirty_hook_loop:
  "get_is_dirty (fold (\<lambda>o' h1. fold (\<lambda>c h2. set_is_dirty c True h2) (connections h1 o') h1) os h) q =
     ((\<exists>o'\<in>set os. q \<in> set (connections h o')) \<or> get_is_dirty h q)"
  by (induction os arbitrary: h) auto

lemma hook_frame [simp]:
  "nodes (on_input_plug_set_dirty self p h) = nodes h"
  "messages (on_input_plug_set_dirty self p h) = messages h"
  "connections (on_input_plug_set_dirty self p h) q = connections h q"
  "get_value (on_input_plug_set_dirty self p h) q = get_value h q"
  "node_of (on_input_plug_set_dirty self p h) q = node_of h q"
  "plug_name (plugs (on_input_plug_set_dirty self p h) q) = plug_name (plugs h q)"
  by (simp_all add: on_input_plug_set_dirty_def)

lemma get_is_dirty_hook:
  "get_is_dirty (on_input_plug_set_dirty self p h) q =
     ((\<exists>o'\<in>set (map snd (outputs (nodes h self))). q \<in> set (connections h o')) \<or> get_is_dirty h q)"
  unfolding on_input_plug_set_dirty_def by (rule get_is_dirty_hook_loop)

lemma input_set_value_frame [simp]:
  "nodes (input_set_value p v h) = nodes h"
  "messages (input_set_value p v h) = messages h"
  "connections (input_set_value p v h) q = connections h q"
  "node_of (input_set_value p v h) q = node_of h q"
  "plug_name (plugs (input_set_value p v h) q) = plug_name (plugs h q)"
  by (simp_all add: input_set_value_def Let_def)
     (simp_all add: connections_def node_of_def)

lemma get_value_input_set_value [simp]:
  "get_value (input_set_value p v h) q = (if q = p then v else get_value h q)"
  by (simp add: input_set_value_def Let_def) (simp add: get_value_def)

lemma get_is_dirty_input_set_value:
  "get_is_dirty (input_set_value p v h) q =
     (q = p \<or> (\<exists>o'\<in>set (map snd (outputs (nodes h (node_of h p)))). q \<in> set (connections h o'))
      \<or> get_is_dirty h q)"
  by (simp add: input_set_value_def Let_def get_is_dirty_hook)
     (auto simp add: connections_def node_of_def get_is_dirty_def)

lemma push_loop_frame [simp]:
  "nodes (fold (\<lambda>c h2. input_set_value c v h2) cs h) = nodes h"
  "messages (fold (\<lambda>c h2. input_set_value c v h2) cs h) = messages h"
  "connections (fold (\<lambda>c h2. input_set_value c v h2) cs h) q = connections h q"
  "node_of (fold (\<lambda>c h2. input_set_value c v h2) cs h) q = node_of h q"
  "plug_name (plugs (fold (\<lambda>c h2. input_set_value c v h2) cs h) q) = plug_name (plugs h q)"
  by (induction cs arbitrary: h; simp)+

lemma get_value_push_loop [simp]:
  "get_value (fold (\<lambda>c h2. input_set_value c v h2) cs h) q =
     (if q \<in> set cs then v else get_value h q)"
  by (induction cs arbitrary: h) auto

lemma output_set_value_frame [simp]:
  "nodes (output_set_value p v h) = nodes h"
  "messages (output_set_value p v h) = messages h"
  "connections (output_set_value p v h) q = connections h q"
  "node_of (output_set_value p v h) q = node_of h q"
  "plug_name (plugs (output_set_value p v h) q) = plug_name (plugs h q)"
  by (simp_all add: output_set_value_def Let_def)
     (simp_all add: connections_def node_of_def)

lemma get_value_output_set_value:
  "get_value (output_set_value p v h) q =
     (if q = p \<or> q \<in> set (connections h p) then v else get_value h q)"
  by (simp add: output_set_value_def Let_def)
     (simp add: connections_def get_value_def)

lemma get_is_dirty_push_loop:
  "get_is_dirty (fold (\<lambda>c h2. input_set_value c v h2) cs h) q =
     (get_is_dirty h q \<or>
      (\<exists>c\<in>set cs. q = c \<or>
         (\<exists>o'\<in>set (map snd (outputs (nodes h (node_of h c)))). q \<in> set (connections h o'))))"
proof (induction cs arbitrary: h)
  case Nil
  then show ?case by simp
next
  case (Cons c cs)
  show ?case
    unfolding fold_Cons comp_apply Cons.IH
    by (simp add: get_is_dirty_input_set_value) blast
qed

lemma value_write_frame:
  "nodes (h\<lparr>plugs := (plugs h)(p := (plugs h p)\<lparr>plug_value := v\<rparr>)\<rparr>) = nodes h"
  "get_is_dirty (h\<lparr>plugs := (plugs h)(p := (plugs h p)\<lparr>plug_value := v\<rparr>)\<rparr>) q = get_is_dirty h q"
  "connections (h\<lparr>plugs := (plugs h)(p := (plugs h p)\<lparr>plug_value := v\<rparr>)\<rparr>) q = connections h q"
  "node_of (h\<lparr>plugs := (plugs h)(p := (plugs h p)\<lparr>plug_value := v\<rparr>)\<rparr>) q = node_of h q"
  by (simp_all add: get_is_dirty_def connections_def node_of_def)

lemma get_is_dirty_output_set_value:
  "get_is_dirty (output_set_value p v h) q =
     (get_is_dirty h q \<or>
      (\<exists>c\<in>set (connections h p). q = c \<or>
         (\<exists>o'\<in>set (map snd (outputs (nodes h (node_of h c)))). q \<in> set (connections h o'))))"
  by (simp only: output_set_value_def Let_def get_is_dirty_push_loop value_write_frame)

lemma push_message_frame [simp]:
  "nodes (push_message m h) = nodes h"
  "plugs (push_message m h) = plugs h"
  "messages (push_message m h) = messages h @ [m]"
  "connections (push_message m h) q = connections h q"
  "get_value (push_message m h) q = get_value h q"
  "get_is_dirty (push_message m h) q = get_is_dirty h q"
  "node_of (push_message m h) q = node_of h q"
  by (simp_all add: push_message_def connections_def get_value_def get_is_dirty_def node_of_def)

section \<open>The derived properties of a node\<close>

lemma is_dirty_loop_iff: "is_dirty_loop h ps \<longleftrightarrow> (\<exists>p\<in>set ps. get_is_dirty h p)"
  by (induction ps) auto

lemma set_collect_nodes:
  "set (collect_nodes h acc ps) = set acc \<union> {node_of h c | c p. p \<in> set ps \<and> c \<in> set (connections h p)}"
  by (induction ps arbitrary: acc) auto

section \<open>The steps of evaluate\<close>

lemma clean_inputs_frame [simp]:
  "nodes (clean_inputs self h) = nodes h"
  "messages (clean_inputs self h) = messages h"
  "connections (clean_inputs self h) q = connections h q"
  "get_value (clean_inputs self h) q = get_value h q"
  "node_of (clean_inputs self h) q = node_of h q"
  "plug_name (plugs (clean_inputs self h) q) = plug_name (plugs h q)"
  by (simp_all add: clean_inputs_def)

lemma get_is_dirty_clean_inputs:
  "get_is_dirty (clean_inputs self h) q =
     (if q \<in> set (map snd (inputs (nodes h self))) then False else get_is_dirty h q)"
  by (simp add: clean_inputs_def)

lemma is_dirty_clean_inputs: "\<not> is_dirty self (clean_inputs self h)"
  by (simp add: is_dirty_def is_dirty_loop_iff get_is_dirty_clean_inputs)

lemma is_dirty_push_message [simp]: "is_dirty self (push_message m h) = is_dirty self h"
  by (simp add: is_dirty_def is_dirty_loop_iff)

lemma distinct_snd_entries:
  assumes "distinct (map snd xs)" and "(k, p) \<in> set xs" and "(k', p) \<in> set xs"
  shows "k = k'"
proof -
  from assms(1) have "inj_on snd (set xs)" by (simp add: distinct_map)
  from inj_onD [OF this _ assms(2,3)] show ?thesis by simp
qed

lemma map_of_distinct_snd_inj:
  assumes "distinct (map snd xs)" and "map_of xs k = Some p" and "map_of xs k' = Some p"
  shows "k = k'"
  using distinct_snd_entries [OF assms(1) map_of_SomeD [OF assms(2)] map_of_SomeD [OF assms(3)]] .

lemma write_outputs_frame:
  "write_outputs self d h = Inr h' \<Longrightarrow>
     nodes h' = nodes h \<and> messages h' = messages h \<and> (\<forall>q. connections h' q = connections h q)"
  by (induction d arbitrary: h) (auto split: option.splits)

lemma write_outputs_succeeds:
  "\<forall>k\<in>fst ` set d. map_of (outputs (nodes h self)) k \<noteq> None \<Longrightarrow>
     \<exists>h'. write_outputs self d h = Inr h'"
  by (induction d arbitrary: h) (auto split: option.splits)

lemma write_outputs_fails:
  "\<exists>k\<in>fst ` set d. map_of (outputs (nodes h self)) k = None \<Longrightarrow>
     \<exists>k h'. write_outputs self d h = Inl (KeyError (PStr k), h') \<and>
            k \<in> fst ` set d \<and> map_of (outputs (nodes h self)) k = None"
proof (induction d arbitrary: h)
  case Nil
  then show ?case by simp
next
  case (Cons kv d)
  obtain k v where kv: "kv = (k, v)" by (cases kv)
  show ?case
  proof (cases "map_of (outputs (nodes h self)) k")
    case None
    then show ?thesis by (auto simp add: kv)
  next
    case (Some p)
    let ?h1 = "output_set_value p v h"
    from Cons.prems Some kv
    have "\<exists>k'\<in>fst ` set d. map_of (outputs (nodes ?h1 self)) k' = None" by auto
    from Cons.IH [OF this] obtain k' h' where
      "write_outputs self d ?h1 = Inl (KeyError (PStr k'), h')" "k' \<in> fst ` set d"
      "map_of (outputs (nodes ?h1 self)) k' = None" by blast
    then show ?thesis using Some kv by auto
  qed
qed

lemma write_outputs_untouched:
  "write_outputs self d h = Inr h' \<Longrightarrow>
   (\<And>k p. k \<in> fst ` set d \<Longrightarrow> map_of (outputs (nodes h self)) k = Some p \<Longrightarrow>
            q \<noteq> p \<and> q \<notin> set (connections h p)) \<Longrightarrow>
   get_value h' q = get_value h q"
proof (induction d arbitrary: h)
  case Nil
  then show ?case by simp
next
  case (Cons kv d)
  obtain k v where kv: "kv = (k, v)" by (cases kv)
  from Cons.prems(1) kv obtain p where
    p: "map_of (outputs (nodes h self)) k = Some p"
    and rest: "write_outputs self d (output_set_value p v h) = Inr h'"
    by (auto split: option.splits)
  let ?h1 = "output_set_value p v h"
  have "q \<noteq> p \<and> q \<notin> set (connections h p)"
    using Cons.prems(2) [of k p] p kv by simp
  then have head: "get_value ?h1 q = get_value h q"
    by (simp add: get_value_output_set_value)
  have "get_value h' q = get_value ?h1 q"
  proof (rule Cons.IH [OF rest])
    fix k' p'
    assume "k' \<in> fst ` set d" "map_of (outputs (nodes ?h1 self)) k' = Some p'"
    then show "q \<noteq> p' \<and> q \<notin> set (connections ?h1 p')"
      using Cons.prems(2) [of k' p'] by simp
  qed
  with head show ?case by simp
qed

lemma write_outputs_written:
  assumes "write_outputs self d h = Inr h'"
    and "distinct (map fst d)"
    and "distinct (map snd (outputs (nodes h self)))"
    and "\<forall>o'\<in>snd ` set (outputs (nodes h self)). \<forall>c\<in>set (connections h o').
           c \<notin> snd ` set (outputs (nodes h self))"
    and "(k, v) \<in> set d" and "map_of (outputs (nodes h self)) k = Some p"
  shows "get_value h' p = v"
  using assms
proof (induction d arbitrary: h)
  case Nil
  then show ?case by simp
next
  case (Cons kv d)
  obtain k0 v0 where kv: "kv = (k0, v0)" by (cases kv)
  from Cons.prems(1) kv obtain p0 where
    p0: "map_of (outputs (nodes h self)) k0 = Some p0"
    and rest: "write_outputs self d (output_set_value p0 v0 h) = Inr h'"
    by (auto split: option.splits)
  let ?h1 = "output_set_value p0 v0 h"
  let ?outs = "outputs (nodes h self)"
  show ?case
  proof (cases "(k, v) \<in> set d")
    case True
    show ?thesis
      by (rule Cons.IH [OF rest _ _ _ True])
         (use Cons.prems in \<open>simp_all add: kv\<close>)
  next
    case False
    with Cons.prems(5) kv have eq: "k0 = k" "v0 = v" by auto
    with p0 Cons.prems(6) have pp: "p0 = p" by simp
    have "get_value h' p = get_value ?h1 p"
    proof (rule write_outputs_untouched [OF rest])
      fix k' p'
      assume k': "k' \<in> fst ` set d" and p': "map_of (outputs (nodes ?h1 self)) k' = Some p'"
      from k' Cons.prems(2) kv eq have "k' \<noteq> k" by auto
      with Cons.prems(3,6) p' have ne: "p \<noteq> p'"
        using map_of_distinct_snd_inj [of ?outs k p k'] by auto
      from p' have "p' \<in> snd ` set ?outs"
        by (auto dest!: map_of_SomeD intro: rev_image_eqI)
      moreover from Cons.prems(6) have "p \<in> snd ` set ?outs"
        by (auto dest!: map_of_SomeD intro: rev_image_eqI)
      ultimately have "p \<notin> set (connections h p')"
        using Cons.prems(4) by blast
      with ne show "p \<noteq> p' \<and> p \<notin> set (connections ?h1 p')" by simp
    qed
    also have "get_value ?h1 p = v"
      using pp eq by (simp add: get_value_output_set_value)
    finally show ?thesis .
  qed
qed

lemma evaluate_Inr_iff:
  "evaluate compute self h = Inr (r, h') \<longleftrightarrow>
     (\<exists>r0 d h1. compute (read_inputs self h) = Inr r0 \<and>
        r = (if py_truthy r0 then r0 else PDict []) \<and> r = PDict d \<and>
        write_outputs self d h = Inr h1 \<and>
        h' = push_message (Computed (node_name (nodes h1 self))) (clean_inputs self h1))"
proof (cases "compute (read_inputs self h)")
  case (Inl e)
  then show ?thesis by (simp add: evaluate_def)
next
  case (Inr r0)
  show ?thesis
  proof (cases "if py_truthy r0 then r0 else PDict []")
    case (PDict d)
    then show ?thesis
      using Inr by (cases "write_outputs self d h") (auto simp add: evaluate_def Let_def)
  qed (use Inr in \<open>auto simp add: evaluate_def Let_def\<close>)
qed

section \<open>The steps of deserialize\<close>

lemma set_name_frame [simp]:
  "plugs (set_name self v h) = plugs h"
  "messages (set_name self v h) = messages h"
  "nodes (set_name self v h) n = (if n = self then (nodes h self)\<lparr>node_name := v\<rparr> else nodes h n)"
  "connections (set_name self v h) q = connections h q"
  "get_value (set_name self v h) q = get_value h q"
  "get_is_dirty (set_name self v h) q = get_is_dirty h q"
  "node_of (set_name self v h) q = node_of h q"
  by (simp_all add: set_name_def connections_def get_value_def get_is_dirty_def node_of_def)

lemma set_name_dicts [simp]:
  "inputs (nodes (set_name self v h) n) = inputs (nodes h n)"
  "outputs (nodes (set_name self v h) n) = outputs (nodes h n)"
  by (simp_all add: set_name_def)

lemma set_identifier_frame [simp]:
  "plugs (set_identifier self v h) = plugs h"
  "messages (set_identifier self v h) = messages h"
  "nodes (set_identifier self v h) n =
     (if n = self then (nodes h self)\<lparr>node_identifier := v\<rparr> else nodes h n)"
  "connections (set_identifier self v h) q = connections h q"
  "get_value (set_identifier self v h) q = get_value h q"
  "get_is_dirty (set_identifier self v h) q = get_is_dirty h q"
  "node_of (set_identifier self v h) q = node_of h q"
  by (simp_all add: set_identifier_def connections_def get_value_def get_is_dirty_def node_of_def)

lemma set_identifier_dicts [simp]:
  "inputs (nodes (set_identifier self v h) n) = inputs (nodes h n)"
  "outputs (nodes (set_identifier self v h) n) = outputs (nodes h n)"
  by (simp_all add: set_identifier_def)

lemma plug_doc_SomeD:
  "plug_doc x = Some (k, v) \<Longrightarrow>
     py_subscript x ''value'' = Inr v \<and> py_subscript x ''name'' = Inr (PStr k)"
  by (cases x) (auto split: option.splits pyval.splits)

lemma plug_doc_plug_serialize [simp]:
  "plug_doc (plug_serialize h p) = Some (plug_name (plugs h p), plug_value (plugs h p))"
  by (simp add: plug_serialize_def)

lemma deserialize_inputs_step:
  "plug_doc x = Some (k, v) \<Longrightarrow>
   deserialize_inputs self (x # rest) h =
     (case map_of (inputs (nodes h self)) k of
        None \<Rightarrow> Inl (KeyError (PStr k), h)
      | Some p \<Rightarrow> deserialize_inputs self rest (input_set_value p v h))"
  by (auto dest!: plug_doc_SomeD split: option.splits)

lemma deserialize_inputs_succeeds:
  "map plug_doc docs = map Some kvs \<Longrightarrow>
   \<forall>k\<in>fst ` set kvs. map_of (inputs (nodes h self)) k \<noteq> None \<Longrightarrow>
   \<exists>h'. deserialize_inputs self docs h = Inr h'"
proof (induction docs arbitrary: kvs h)
  case Nil
  then show ?case by simp
next
  case (Cons x docs)
  from Cons.prems(1) obtain k v kvs' where
    kvs: "kvs = (k, v) # kvs'" and x: "plug_doc x = Some (k, v)"
    and rest: "map plug_doc docs = map Some kvs'"
    by (cases kvs) auto
  from Cons.prems(2) kvs obtain p where p: "map_of (inputs (nodes h self)) k = Some p"
    by auto
  let ?h1 = "input_set_value p v h"
  from Cons.prems(2) kvs
  have "\<forall>k'\<in>fst ` set kvs'. map_of (inputs (nodes ?h1 self)) k' \<noteq> None" by simp
  from Cons.IH [OF rest this] show ?case
    by (simp only: deserialize_inputs_step [OF x]) (simp add: p)
qed

lemma deserialize_inputs_first_unknown:
  "map plug_doc pre = map Some kvs \<Longrightarrow>
   \<forall>k'\<in>fst ` set kvs. map_of (inputs (nodes h self)) k' \<noteq> None \<Longrightarrow>
   plug_doc x = Some (k, v) \<Longrightarrow> map_of (inputs (nodes h self)) k = None \<Longrightarrow>
   \<exists>h'. deserialize_inputs self (pre @ x # rest) h = Inl (KeyError (PStr k), h')"
proof (induction pre arbitrary: kvs h)
  case Nil
  then show ?case
    by (simp only: append_Nil deserialize_inputs_step [OF Nil.prems(3)]) simp
next
  case (Cons y pre)
  from Cons.prems(1) obtain k0 v0 kvs' where
    kvs: "kvs = (k0, v0) # kvs'" and y: "plug_doc y = Some (k0, v0)"
    and rest: "map plug_doc pre = map Some kvs'"
    by (cases kvs) auto
  from Cons.prems(2) kvs obtain p where p: "map_of (inputs (nodes h self)) k0 = Some p"
    by auto
  let ?h1 = "input_set_value p v0 h"
  from Cons.prems(2) kvs
  have known: "\<forall>k'\<in>fst ` set kvs'. map_of (inputs (nodes ?h1 self)) k' \<noteq> None" by simp
  from Cons.prems(4) have unknown: "map_of (inputs (nodes ?h1 self)) k = None" by simp
  from Cons.IH [OF rest known Cons.prems(3) unknown] show ?case
    by (simp only: append_Cons deserialize_inputs_step [OF y]) (simp add: p)
qed

text \<open>What a successful run of the loop of \<open>deserialize\<close> leaves as it was.\<close>

lemma deserialize_inputs_frame:
  "map plug_doc docs = map Some kvs \<Longrightarrow> deserialize_inputs self docs h = Inr h' \<Longrightarrow>
   nodes h' = nodes h \<and> messages h' = messages h \<and>
   (\<forall>q. connections h' q = connections h q \<and> node_of h' q = node_of h q \<and>
        plug_name (plugs h' q) = plug_name (plugs h q))"
proof (induction docs arbitrary: kvs h)
  case Nil
  then show ?case by simp
next
  case (Cons x docs)
  from Cons.prems(1) obtain k v kvs' where
    kvs: "kvs = (k, v) # kvs'" and x: "plug_doc x = Some (k, v)"
    and rest: "map plug_doc docs = map Some kvs'"
    by (cases kvs) auto
  from Cons.prems(2) obtain p where
    p: "map_of (inputs (nodes h self)) k = Some p"
    and run: "deserialize_inputs self docs (input_set_value p v h) = Inr h'"
    by (simp only: deserialize_inputs_step [OF x]) (auto split: option.splits)
  from Cons.IH [OF rest run] show ?case by simp
qed

lemma deserialize_inputs_untouched:
  "map plug_doc docs = map Some kvs \<Longrightarrow> deserialize_inputs self docs h = Inr h' \<Longrightarrow>
   \<forall>k\<in>fst ` set kvs. map_of (inputs (nodes h self)) k \<noteq> Some q \<Longrightarrow>
   get_value h' q = get_value h q"
proof (induction docs arbitrary: kvs h)
  case Nil
  then show ?case by simp
next
  case (Cons x docs)
  from Cons.prems(1) obtain k v kvs' where
    kvs: "kvs = (k, v) # kvs'" and x: "plug_doc x = Some (k, v)"
    and rest: "map plug_doc docs = map Some kvs'"
    by (cases kvs) auto
  from Cons.prems(2) obtain p where
    p: "map_of (inputs (nodes h self)) k = Some p"
    and run: "deserialize_inputs self docs (input_set_value p v h) = Inr h'"
    by (simp only: deserialize_inputs_step [OF x]) (auto split: option.splits)
  let ?h1 = "input_set_value p v h"
  from Cons.prems(3) kvs p have ne: "q \<noteq> p" by auto
  from Cons.prems(3) kvs
  have "\<forall>k'\<in>fst ` set kvs'. map_of (inputs (nodes ?h1 self)) k' \<noteq> Some q" by simp
  from Cons.IH [OF rest run this] ne show ?case by simp
qed

lemma deserialize_inputs_written:
  assumes "map plug_doc docs = map Some kvs" and "deserialize_inputs self docs h = Inr h'"
    and "distinct (map fst kvs)" and "distinct (map snd (inputs (nodes h self)))"
    and "(k, v) \<in> set kvs" and "map_of (inputs (nodes h self)) k = Some p"
  shows "get_value h' p = v"
  using assms
proof (induction docs arbitrary: kvs h)
  case Nil
  then show ?case by simp
next
  case (Cons x docs)
  from Cons.prems(1) obtain k0 v0 kvs' where
    kvs: "kvs = (k0, v0) # kvs'" and x: "plug_doc x = Some (k0, v0)"
    and rest: "map plug_doc docs = map Some kvs'"
    by (cases kvs) auto
  from Cons.prems(2) obtain p0 where
    p0: "map_of (inputs (nodes h self)) k0 = Some p0"
    and run: "deserialize_inputs self docs (input_set_value p0 v0 h) = Inr h'"
    by (simp only: deserialize_inputs_step [OF x]) (auto split: option.splits)
  let ?h1 = "input_set_value p0 v0 h"
  let ?ins = "inputs (nodes h self)"
  show ?case
  proof (cases "(k, v) \<in> set kvs'")
    case True
    show ?thesis
      by (rule Cons.IH [OF rest run _ _ True])
         (use Cons.prems kvs in simp_all)
  next
    case False
    with Cons.prems(5) kvs have eq: "k0 = k" "v0 = v" by auto
    with p0 Cons.prems(6) have pp: "p0 = p" by simp
    have "\<forall>k'\<in>fst ` set kvs'. map_of (inputs (nodes ?h1 self)) k' \<noteq> Some p"
    proof
      fix k' assume k': "k' \<in> fst ` set kvs'"
      with Cons.prems(3) kvs eq have "k' \<noteq> k" by auto
      with Cons.prems(4,6) show "map_of (inputs (nodes ?h1 self)) k' \<noteq> Some p"
        using map_of_distinct_snd_inj [of ?ins k p k'] by auto
    qed
    from deserialize_inputs_untouched [OF rest run this]
    show ?thesis using pp eq by simp
  qed
qed

text \<open>The dirty flags after a successful run of the loop: a plug is dirty when it was
  dirty, or was assigned, or is connected to an output plug of the owner of an assigned
  plug.\<close>

lemma deserialize_inputs_dirty:
  "map plug_doc docs = map Some kvs \<Longrightarrow> deserialize_inputs self docs h = Inr h' \<Longrightarrow>
   get_is_dirty h' q \<longleftrightarrow>
     get_is_dirty h q \<or>
     (\<exists>k\<in>fst ` set kvs. \<exists>p. map_of (inputs (nodes h self)) k = Some p \<and>
        (q = p \<or> (\<exists>o'\<in>set (map snd (outputs (nodes h (node_of h p)))).
                   q \<in> set (connections h o'))))"
proof (induction docs arbitrary: kvs h)
  case Nil
  then show ?case by simp
next
  case (Cons x docs)
  from Cons.prems(1) obtain k v kvs' where
    kvs: "kvs = (k, v) # kvs'" and x: "plug_doc x = Some (k, v)"
    and rest: "map plug_doc docs = map Some kvs'"
    by (cases kvs) auto
  from Cons.prems(2) obtain p where
    p: "map_of (inputs (nodes h self)) k = Some p"
    and run: "deserialize_inputs self docs (input_set_value p v h) = Inr h'"
    by (simp only: deserialize_inputs_step [OF x]) (auto split: option.splits)
  show ?case
    unfolding Cons.IH [OF rest run]
    by (simp add: get_is_dirty_input_set_value kvs p) blast
qed

section \<open>The claims\<close>

text \<open>C1: \<open>evaluate\<close> on a node whose \<open>compute\<close> returns \<open>r\<close> for the keyword arguments read
  from the input plugs (each input name with the current value of its plug), where \<open>r\<close> is
  a dictionary whose keys all name output plugs, or \<open>None\<close> or another empty result
  (\<open>d\<close> is then empty). \<open>evaluate\<close> returns the dictionary; every input plug is clean
  afterwards; an empty result writes no plug value at all. When distinct output names
  hold distinct plug objects and no output plug of the node is connected to an output
  plug of the node, every returned key's output plug holds the returned value and every
  output plug whose name is not returned holds the value it had.\<close>

theorem evaluate_writes_outputs:
  assumes "compute (read_inputs self h) = Inr r"
    and "(if py_truthy r then r else PDict []) = PDict d"
    and "distinct (map fst d)"
    and "\<forall>k\<in>fst ` set d. map_of (outputs (nodes h self)) k \<noteq> None"
  shows "read_inputs self h =
           map (\<lambda>(n, p). (n, plug_value (plugs h p))) (inputs (nodes h self)) \<and>
         (\<exists>h'. evaluate compute self h = Inr (PDict d, h') \<and>
            (\<forall>p\<in>snd ` set (inputs (nodes h self)). \<not> plug_is_dirty (plugs h' p)) \<and>
            (d = [] \<longrightarrow> (\<forall>q. plug_value (plugs h' q) = plug_value (plugs h q))) \<and>
            (distinct (map snd (outputs (nodes h self))) \<and>
             (\<forall>o'\<in>snd ` set (outputs (nodes h self)).
                \<forall>c\<in>set (plug_connections (plugs h o')).
                  c \<notin> snd ` set (outputs (nodes h self))) \<longrightarrow>
             (\<forall>(k, v)\<in>set d. \<exists>p. map_of (outputs (nodes h self)) k = Some p \<and>
                                   plug_value (plugs h' p) = v) \<and>
             (\<forall>(k, p)\<in>set (outputs (nodes h self)).
                k \<notin> fst ` set d \<longrightarrow> plug_value (plugs h' p) = plug_value (plugs h p))))"
proof -
  let ?outs = "outputs (nodes h self)"
  from write_outputs_succeeds [of d h self] assms(4)
  obtain h1 where w: "write_outputs self d h = Inr h1" by blast
  define h' where "h' = push_message (Computed (node_name (nodes h1 self))) (clean_inputs self h1)"
  from write_outputs_frame [OF w] have fr: "nodes h1 = nodes h" by simp
  have ev: "evaluate compute self h = Inr (PDict d, h')"
    using assms(1,2) w by (simp add: evaluate_Inr_iff h'_def)
  have val: "plug_value (plugs h' q) = get_value h1 q" for q
    by (simp add: h'_def get_value_def [symmetric])
  have clean: "\<forall>p\<in>snd ` set (inputs (nodes h self)). \<not> plug_is_dirty (plugs h' p)"
  proof
    fix p assume "p \<in> snd ` set (inputs (nodes h self))"
    then have "\<not> get_is_dirty h' p"
      by (simp add: h'_def get_is_dirty_clean_inputs fr)
    then show "\<not> plug_is_dirty (plugs h' p)" by (simp add: get_is_dirty_def)
  qed
  have empty: "d = [] \<longrightarrow> (\<forall>q. plug_value (plugs h' q) = plug_value (plugs h q))"
    using w by (auto simp add: val get_value_def)
  have written: "\<forall>(k, v)\<in>set d. \<exists>p. map_of ?outs k = Some p \<and> plug_value (plugs h' p) = v"
    if inj: "distinct (map snd ?outs)"
      and sep: "\<forall>o'\<in>snd ` set ?outs. \<forall>c\<in>set (plug_connections (plugs h o')). c \<notin> snd ` set ?outs"
  proof (clarify)
    fix k v assume kv: "(k, v) \<in> set d"
    with assms(4) obtain p where p: "map_of ?outs k = Some p" by force
    from sep have sep': "\<forall>o'\<in>snd ` set ?outs. \<forall>c\<in>set (connections h o'). c \<notin> snd ` set ?outs"
      by (simp add: connections_def)
    from write_outputs_written [OF w assms(3) inj sep' kv p]
    show "\<exists>p. map_of ?outs k = Some p \<and> plug_value (plugs h' p) = v"
      using p by (simp add: val)
  qed
  have kept: "\<forall>(k, p)\<in>set ?outs. k \<notin> fst ` set d \<longrightarrow> plug_value (plugs h' p) = plug_value (plugs h p)"
    if inj: "distinct (map snd ?outs)"
      and sep: "\<forall>o'\<in>snd ` set ?outs. \<forall>c\<in>set (plug_connections (plugs h o')). c \<notin> snd ` set ?outs"
  proof (clarify)
    fix k p assume kp: "(k, p) \<in> set ?outs" and k: "k \<notin> fst ` set d"
    have "get_value h1 p = get_value h p"
    proof (rule write_outputs_untouched [OF w])
      fix k' p'
      assume k': "k' \<in> fst ` set d" and p': "map_of ?outs k' = Some p'"
      from p' have in': "(k', p') \<in> set ?outs" by (rule map_of_SomeD)
      from k k' have "k \<noteq> k'" by auto
      with inj kp in' have ne: "p \<noteq> p'"
        using distinct_snd_entries [of ?outs k p k'] by auto
      from kp in' have "p \<in> snd ` set ?outs" "p' \<in> snd ` set ?outs"
        by (auto intro: rev_image_eqI)
      with sep have "p \<notin> set (connections h p')" by (auto simp add: connections_def)
      with ne show "p \<noteq> p' \<and> p \<notin> set (connections h p')" by simp
    qed
    then show "plug_value (plugs h' p) = plug_value (plugs h p)"
      by (simp add: val) (simp add: get_value_def)
  qed
  have reads: "read_inputs self h =
                 map (\<lambda>(n, p). (n, plug_value (plugs h p))) (inputs (nodes h self))"
    by (simp add: read_inputs_def get_value_def)
  from ev clean empty written kept reads show ?thesis by blast
qed


text \<open>\<open>Start\<close> with a \<open>compute\<close> that returns \<open>{'out': 6}\<close>: \<open>out\<close> holds 6, \<open>out2\<close> still holds
  5, both inputs are clean. With a \<open>compute\<close> that returns \<open>None\<close>: the result is the empty
  dictionary, \<open>out\<close> and \<open>out2\<close> hold what they held, and the input that was dirty is
  clean.\<close>

theorem evaluate_writes_outputs_witness:
  "(\<exists>h'. evaluate only_out_compute 0 example_heap = Inr (PDict [(''out'', PInt 6)], h') \<and>
         plug_value (plugs h' 0) = PInt 6 \<and> plug_value (plugs h' 1) = PInt 5 \<and>
         \<not> plug_is_dirty (plugs h' 2) \<and> \<not> plug_is_dirty (plugs h' 3)) \<and>
   (\<exists>h'. evaluate silent_compute 0 example_heap = Inr (PDict [], h') \<and>
         plug_value (plugs h' 0) = PNone \<and> plug_value (plugs h' 1) = PInt 5 \<and>
         plug_is_dirty (plugs example_heap 2) \<and> \<not> plug_is_dirty (plugs h' 2))"
proof -
  have outs: "outputs (nodes example_heap 0) = [(''out'', 0), (''out2'', 1)]"
    and ins: "inputs (nodes example_heap 0) = [(''in1'', 2), (''in2'', 3)]"
    and conns: "plug_connections (plugs example_heap 0) = [6]"
               "plug_connections (plugs example_heap (Suc 0)) = [7]"
    and vals: "plug_value (plugs example_heap 0) = PNone"
              "plug_value (plugs example_heap (Suc 0)) = PInt 5"
    and dirty: "plug_is_dirty (plugs example_heap 2)"
    by (simp_all add: example_defs)
  have a1: "only_out_compute (read_inputs 0 example_heap) = Inr (PDict [(''out'', PInt 6)])"
    by (simp add: only_out_compute_def)
  have a2: "(if py_truthy (PDict [(''out'', PInt 6)]) then PDict [(''out'', PInt 6)] else PDict [])
              = PDict [(''out'', PInt 6)]" by simp
  have a3: "distinct (map fst [(''out'', PInt 6)])" by simp
  have a4: "\<forall>k\<in>fst ` set [(''out'', PInt 6)]. map_of (outputs (nodes example_heap 0)) k \<noteq> None"
    by (simp add: outs)
  have wf: "distinct (map snd (outputs (nodes example_heap 0))) \<and>
            (\<forall>o'\<in>snd ` set (outputs (nodes example_heap 0)).
               \<forall>c\<in>set (plug_connections (plugs example_heap o')).
                 c \<notin> snd ` set (outputs (nodes example_heap 0)))"
    by (simp add: example_defs)
  from evaluate_writes_outputs
         [of only_out_compute 0 example_heap "PDict [(''out'', PInt 6)]" "[(''out'', PInt 6)]",
          OF a1 a2 a3 a4, THEN conjunct2]
  obtain h' where H:
    "evaluate only_out_compute 0 example_heap = Inr (PDict [(''out'', PInt 6)], h') \<and>
     (\<forall>p\<in>snd ` set (inputs (nodes example_heap 0)). \<not> plug_is_dirty (plugs h' p)) \<and>
     ([(''out'', PInt 6)] = [] \<longrightarrow>
        (\<forall>q. plug_value (plugs h' q) = plug_value (plugs example_heap q))) \<and>
     (distinct (map snd (outputs (nodes example_heap 0))) \<and>
      (\<forall>o'\<in>snd ` set (outputs (nodes example_heap 0)).
         \<forall>c\<in>set (plug_connections (plugs example_heap o')).
           c \<notin> snd ` set (outputs (nodes example_heap 0))) \<longrightarrow>
      (\<forall>(k, v)\<in>set [(''out'', PInt 6)].
         \<exists>p. map_of (outputs (nodes example_heap 0)) k = Some p \<and> plug_value (plugs h' p) = v) \<and>
      (\<forall>(k, p)\<in>set (outputs (nodes example_heap 0)).
         k \<notin> fst ` set [(''out'', PInt 6)] \<longrightarrow>
         plug_value (plugs h' p) = plug_value (plugs example_heap p)))" ..
  note ev = H [THEN conjunct1]
  note clean = H [THEN conjunct2, THEN conjunct1]
  note both = H [THEN conjunct2, THEN conjunct2, THEN conjunct2, THEN mp, OF wf]
  note written = both [THEN conjunct1]
  note kept = both [THEN conjunct2]
  from written have w0: "plug_value (plugs h' 0) = PInt 6" by (simp add: outs)
  from kept have w1: "plug_value (plugs h' 1) = PInt 5" by (simp add: outs vals)
  from clean have w2: "\<not> plug_is_dirty (plugs h' 2)" "\<not> plug_is_dirty (plugs h' 3)"
    by (simp_all add: ins)
  have first: "\<exists>h'. evaluate only_out_compute 0 example_heap = Inr (PDict [(''out'', PInt 6)], h') \<and>
         plug_value (plugs h' 0) = PInt 6 \<and> plug_value (plugs h' 1) = PInt 5 \<and>
         \<not> plug_is_dirty (plugs h' 2) \<and> \<not> plug_is_dirty (plugs h' 3)"
    using ev w0 w1 w2 by blast
  have b1: "silent_compute (read_inputs 0 example_heap) = Inr PNone"
    by (simp add: silent_compute_def)
  have b2: "(if py_truthy PNone then PNone else PDict []) = PDict []" by simp
  have b3: "distinct (map fst ([] :: (string \<times> pyval) list))" by simp
  have b4: "\<forall>k\<in>fst ` set ([] :: (string \<times> pyval) list).
              map_of (outputs (nodes example_heap 0)) k \<noteq> None" by simp
  from evaluate_writes_outputs
         [of silent_compute 0 example_heap PNone "[]", OF b1 b2 b3 b4, THEN conjunct2]
  obtain h2 where H2:
    "evaluate silent_compute 0 example_heap = Inr (PDict [], h2) \<and>
     (\<forall>p\<in>snd ` set (inputs (nodes example_heap 0)). \<not> plug_is_dirty (plugs h2 p)) \<and>
     (([] :: (string \<times> pyval) list) = [] \<longrightarrow>
        (\<forall>q. plug_value (plugs h2 q) = plug_value (plugs example_heap q))) \<and>
     (distinct (map snd (outputs (nodes example_heap 0))) \<and>
      (\<forall>o'\<in>snd ` set (outputs (nodes example_heap 0)).
         \<forall>c\<in>set (plug_connections (plugs example_heap o')).
           c \<notin> snd ` set (outputs (nodes example_heap 0))) \<longrightarrow>
      (\<forall>(k, v)\<in>set ([] :: (string \<times> pyval) list).
         \<exists>p. map_of (outputs (nodes example_heap 0)) k = Some p \<and> plug_value (plugs h2 p) = v) \<and>
      (\<forall>(k, p)\<in>set (outputs (nodes example_heap 0)).
         k \<notin> fst ` set ([] :: (string \<times> pyval) list) \<longrightarrow>
         plug_value (plugs h2 p) = plug_value (plugs example_heap p)))" ..
  note ev2 = H2 [THEN conjunct1]
  note clean2 = H2 [THEN conjunct2, THEN conjunct1]
  from H2 [THEN conjunct2, THEN conjunct2, THEN conjunct1]
  have same: "\<forall>q. plug_value (plugs h2 q) = plug_value (plugs example_heap q)" by simp
  from clean2 have "\<not> plug_is_dirty (plugs h2 2)" by (simp add: ins)
  with ev2 same vals dirty
  have second: "\<exists>h'. evaluate silent_compute 0 example_heap = Inr (PDict [], h') \<and>
         plug_value (plugs h' 0) = PNone \<and> plug_value (plugs h' 1) = PInt 5 \<and>
         plug_is_dirty (plugs example_heap 2) \<and> \<not> plug_is_dirty (plugs h' 2)"
    by auto
  from first second show ?thesis by (rule conjI)
qed

text \<open>C2: for every node and every store, \<open>is_dirty\<close> is true exactly when at least one
  of the node's input plugs has its dirty flag set. \<open>is_dirty\<close> is a function of the store
  (the node record has no field for it), so it is computed from the input plugs at every
  read; the right-hand side mentions no output plug.\<close>

theorem is_dirty_iff_any_input_dirty:
  "is_dirty self h \<longleftrightarrow> (\<exists>p\<in>set (map snd (inputs (nodes h self))). plug_is_dirty (plugs h p))"
  unfolding is_dirty_def is_dirty_loop_iff get_is_dirty_def ..

text \<open>In the example \<open>Start\<close> has a dirty input plug and \<open>Node1\<close> has none.\<close>

theorem is_dirty_iff_any_input_dirty_witness:
  "is_dirty 0 example_heap \<and> \<not> is_dirty 1 example_heap"
  using is_dirty_iff_any_input_dirty [of 0 example_heap]
        is_dirty_iff_any_input_dirty [of 1 example_heap]
  by (simp add: example_defs)

text \<open>C3: for every node, every plug \<open>p\<close> and every store (whatever the dirty flags of the
  node, so whether or not it has been recomputed), after \<open>on_input_plug_set_dirty\<close> every
  plug connected to one of the node's output plugs is dirty. The call reads the
  connections of the store it is given and changes no plug value, no connection and no
  node: nothing is computed.\<close>

theorem on_input_plug_set_dirty_marks_connected:
  "(\<forall>o'\<in>set (map snd (outputs (nodes h self))).
      \<forall>c\<in>set (plug_connections (plugs h o')).
        plug_is_dirty (plugs (on_input_plug_set_dirty self p h) c)) \<and>
   (\<forall>q. plug_value (plugs (on_input_plug_set_dirty self p h) q) = plug_value (plugs h q) \<and>
        plug_connections (plugs (on_input_plug_set_dirty self p h) q) = plug_connections (plugs h q)) \<and>
   nodes (on_input_plug_set_dirty self p h) = nodes h"
proof -
  have dirty: "plug_is_dirty (plugs (on_input_plug_set_dirty self p h) c)"
    if "o' \<in> set (map snd (outputs (nodes h self)))" "c \<in> set (plug_connections (plugs h o'))"
    for o' c
    using that get_is_dirty_hook [of self p h c]
    unfolding get_is_dirty_def connections_def by blast
  have vals: "plug_value (plugs (on_input_plug_set_dirty self p h) q) = plug_value (plugs h q)" for q
    using hook_frame(4) [of self p h q] by (simp add: get_value_def)
  have conns: "plug_connections (plugs (on_input_plug_set_dirty self p h) q) = plug_connections (plugs h q)" for q
    using hook_frame(3) [of self p h q] by (simp add: connections_def)
  show ?thesis using dirty vals conns by simp
qed

text \<open>The two input plugs of \<open>Node1\<close> are clean before the call on \<open>Start\<close> and dirty after
  it; the output value of \<open>Start\<close> is still the stale one.\<close>

theorem on_input_plug_set_dirty_marks_connected_witness:
  "\<not> plug_is_dirty (plugs example_heap 6) \<and> \<not> plug_is_dirty (plugs example_heap 7) \<and>
   plug_is_dirty (plugs (on_input_plug_set_dirty 0 2 example_heap) 6) \<and>
   plug_is_dirty (plugs (on_input_plug_set_dirty 0 2 example_heap) 7) \<and>
   plug_value (plugs (on_input_plug_set_dirty 0 2 example_heap) 0) = PNone"
  using on_input_plug_set_dirty_marks_connected [of example_heap 0 2]
  by (simp add: example_defs)

text \<open>C4: let \<open>n\<close> be a node whose input plugs are registered under their own names (the
  dictionary \<open>inputs\<close> has each name once), and \<open>f\<close> a node with the same input plug names,
  each holding a plug object of its own. Then \<open>deserialize\<close> of \<open>serialize n\<close> on \<open>f\<close>
  returns, and afterwards the name and the identifier of \<open>f\<close> are those of \<open>n\<close>, \<open>f\<close> has
  the input plugs it had, and for every input plug of \<open>n\<close> the input plug of \<open>f\<close> of the
  same name holds its value.\<close>

theorem deserialize_serialize_roundtrip:
  assumes "distinct (map fst (inputs (nodes h n)))"
    and "\<forall>(k, p)\<in>set (inputs (nodes h n)). plug_name (plugs h p) = k"
    and "fst ` set (inputs (nodes h f)) = fst ` set (inputs (nodes h n))"
    and "distinct (map snd (inputs (nodes h f)))"
  shows "\<exists>h'. deserialize f (serialize n h) h = Inr h' \<and>
           node_name (nodes h' f) = node_name (nodes h n) \<and>
           node_identifier (nodes h' f) = node_identifier (nodes h n) \<and>
           inputs (nodes h' f) = inputs (nodes h f) \<and>
           (\<forall>(k, p)\<in>set (inputs (nodes h n)).
              \<exists>q. map_of (inputs (nodes h f)) k = Some q \<and>
                  plug_value (plugs h' q) = plug_value (plugs h p))"
proof -
  let ?ins = "inputs (nodes h n)"
  let ?docs = "map (\<lambda>plug. plug_serialize h plug) (map snd ?ins)"
  let ?kvs = "map (\<lambda>(k, p). (k, plug_value (plugs h p))) ?ins"
  let ?h2 = "set_identifier f (node_identifier (nodes h n)) (set_name f (node_name (nodes h n)) h)"
  have docs: "map plug_doc ?docs = map Some ?kvs"
    using assms(2) by (auto simp add: comp_def)
  have keys: "map fst ?kvs = map fst ?ins" by (simp add: comp_def case_prod_unfold)
  have ins2: "inputs (nodes ?h2 f) = inputs (nodes h f)" by simp
  have known: "\<forall>k\<in>fst ` set ?kvs. map_of (inputs (nodes ?h2 f)) k \<noteq> None"
  proof
    fix k assume "k \<in> fst ` set ?kvs"
    then have "k \<in> fst ` set ?ins" using keys by (metis list.set_map)
    with assms(3) have "k \<in> fst ` set (inputs (nodes h f))" by simp
    then show "map_of (inputs (nodes ?h2 f)) k \<noteq> None"
      by (simp add: ins2 map_of_eq_None_iff)
  qed
  from deserialize_inputs_succeeds [OF docs known]
  obtain h' where run: "deserialize_inputs f ?docs ?h2 = Inr h'" by blast
  have des: "deserialize f (serialize n h) h = Inr h'"
    using run by (simp add: deserialize_def serialize_def)
  from deserialize_inputs_frame [OF docs run] have nodes: "nodes h' = nodes ?h2" by simp
  have nm: "node_name (nodes h' f) = node_name (nodes h n)"
    and ident: "node_identifier (nodes h' f) = node_identifier (nodes h n)"
    by (simp_all add: nodes)
  have same: "inputs (nodes h' f) = inputs (nodes h f)" by (simp add: nodes)
  have vals: "\<forall>(k, p)\<in>set ?ins. \<exists>q. map_of (inputs (nodes h f)) k = Some q \<and>
                plug_value (plugs h' q) = plug_value (plugs h p)"
  proof (clarify)
    fix k p assume kp: "(k, p) \<in> set ?ins"
    then have mem: "(k, plug_value (plugs h p)) \<in> set ?kvs" by force
    then have "k \<in> fst ` set ?kvs" by (rule rev_image_eqI) simp
    with known obtain q where q: "map_of (inputs (nodes ?h2 f)) k = Some q" by blast
    have d1: "distinct (map fst ?kvs)" unfolding keys by (rule assms(1))
    have d2: "distinct (map snd (inputs (nodes ?h2 f)))" using assms(4) by simp
    from deserialize_inputs_written [OF docs run d1 d2 mem q]
    have "plug_value (plugs h' q) = plug_value (plugs h p)" by (simp add: get_value_def)
    moreover from q have "map_of (inputs (nodes h f)) k = Some q" by simp
    ultimately show "\<exists>q. map_of (inputs (nodes h f)) k = Some q \<and>
                        plug_value (plugs h' q) = plug_value (plugs h p)" by blast
  qed
  from des nm ident same vals show ?thesis by blast
qed


text \<open>\<open>Start\<close> serialized and read into the third node: the node takes the name and the
  identifier of \<open>Start\<close>, and its input plugs, which held \<open>None\<close>, hold 2 and 3.\<close>

theorem deserialize_serialize_roundtrip_witness:
  "\<exists>h'. deserialize 2 (serialize 0 example_heap) example_heap = Inr h' \<and>
        node_name (nodes h' 2) = PStr ''Start'' \<and>
        node_identifier (nodes h' 2) = PStr ''Start-0001'' \<and>
        plug_value (plugs example_heap 10) = PNone \<and>
        plug_value (plugs h' 10) = PInt 2 \<and> plug_value (plugs h' 11) = PInt 3"
proof -
  have ins0: "inputs (nodes example_heap 0) = [(''in1'', 2), (''in2'', 3)]"
    and ins2: "inputs (nodes example_heap 2) = [(''in1'', 10), (''in2'', 11)]"
    and names: "plug_name (plugs example_heap 2) = ''in1''" "plug_name (plugs example_heap 3) = ''in2''"
    and vals: "plug_value (plugs example_heap 2) = PInt 2" "plug_value (plugs example_heap 3) = PInt 3"
              "plug_value (plugs example_heap 10) = PNone"
    and node0: "node_name (nodes example_heap 0) = PStr ''Start''"
               "node_identifier (nodes example_heap 0) = PStr ''Start-0001''"
    by (simp_all add: example_defs)
  have a1: "distinct (map fst (inputs (nodes example_heap 0)))" by (simp add: ins0)
  have a2: "\<forall>(k, p)\<in>set (inputs (nodes example_heap 0)). plug_name (plugs example_heap p) = k"
    by (simp add: ins0 names)
  have a3: "fst ` set (inputs (nodes example_heap 2)) = fst ` set (inputs (nodes example_heap 0))"
    by (simp add: ins0 ins2)
  have a4: "distinct (map snd (inputs (nodes example_heap 2)))" by (simp add: ins2)
  from deserialize_serialize_roundtrip [of example_heap 0 2, OF a1 a2 a3 a4]
  obtain h' where H:
    "deserialize 2 (serialize 0 example_heap) example_heap = Inr h' \<and>
     node_name (nodes h' 2) = node_name (nodes example_heap 0) \<and>
     node_identifier (nodes h' 2) = node_identifier (nodes example_heap 0) \<and>
     inputs (nodes h' 2) = inputs (nodes example_heap 2) \<and>
     (\<forall>(k, p)\<in>set (inputs (nodes example_heap 0)).
        \<exists>q. map_of (inputs (nodes example_heap 2)) k = Some q \<and>
            plug_value (plugs h' q) = plug_value (plugs example_heap p))" ..
  note des = H [THEN conjunct1]
  from H have nm: "node_name (nodes h' 2) = PStr ''Start''" by (simp add: node0)
  from H have ident: "node_identifier (nodes h' 2) = PStr ''Start-0001''" by (simp add: node0)
  from H [THEN conjunct2, THEN conjunct2, THEN conjunct2, THEN conjunct2]
  have v10: "plug_value (plugs h' 10) = PInt 2" and v11: "plug_value (plugs h' 11) = PInt 3"
    by (simp_all add: ins0 ins2 vals)
  from des nm ident vals(3) v10 v11 show ?thesis by blast
qed

text \<open>C5, as the code has it: when \<open>compute\<close> raises, \<open>evaluate\<close> raises the very same
  exception (nothing wraps it in a \<open>ComputeError\<close>, nothing swallows it) and the store is
  the one \<open>evaluate\<close> was called in: no output plug is written, no dirty flag is changed
  and no message is logged.\<close>

theorem evaluate_compute_raises:
  "compute (read_inputs self h) = Inl e \<Longrightarrow> evaluate compute self h = Inl (e, h)"
  by (simp add: evaluate_def)

theorem evaluate_compute_raises_witness:
  "failing_compute (read_inputs 0 example_heap) = Inl (Exception ''boom'') \<and>
   evaluate failing_compute 0 example_heap = Inl (Exception ''boom'', example_heap)"
proof -
  have r: "failing_compute (read_inputs 0 example_heap) = Inl (Exception ''boom'')"
    by (simp add: failing_compute_def)
  show ?thesis using r evaluate_compute_raises [of failing_compute 0 example_heap, OF r] by simp
qed

text \<open>C5 as stated fails: a \<open>compute\<close> that raises \<open>Exception('boom')\<close> makes \<open>evaluate\<close>
  raise that exception, which is no \<open>ComputeError\<close>.\<close>

theorem evaluate_compute_raises_not_ComputeError:
  "raised (evaluate failing_compute 0 example_heap) = Some (Exception ''boom'') \<and>
   raised (evaluate failing_compute 0 example_heap) \<noteq> Some ComputeError"
  by (simp add: evaluate_def failing_compute_def raised_def)

text \<open>C6, as the code has it: when \<open>compute\<close> returns a dictionary with a key that names
  no output plug of the node, \<open>evaluate\<close> fails with the \<open>KeyError\<close> of the lookup
  \<open>self.outputs[name]\<close>, for such a key.\<close>

theorem evaluate_unknown_key_KeyError:
  assumes "compute (read_inputs self h) = Inr (PDict d)"
    and "k \<in> fst ` set d" and "map_of (outputs (nodes h self)) k = None"
  shows "\<exists>k' h'. evaluate compute self h = Inl (KeyError (PStr k'), h') \<and>
                 k' \<in> fst ` set d \<and> map_of (outputs (nodes h self)) k' = None"
proof -
  from assms(2) have "d \<noteq> []" by auto
  moreover from assms(2,3) obtain k' h' where
    "write_outputs self d h = Inl (KeyError (PStr k'), h')" "k' \<in> fst ` set d"
    "map_of (outputs (nodes h self)) k' = None"
    using write_outputs_fails [of d h self] by blast
  ultimately show ?thesis using assms(1) by (auto simp add: evaluate_def)
qed

theorem evaluate_unknown_key_KeyError_witness:
  "raised (evaluate stray_key_compute 0 example_heap) = Some (KeyError (PStr ''nope''))"
proof -
  have a: "stray_key_compute (read_inputs 0 example_heap) =
             Inr (PDict [(''out'', PInt 6), (''nope'', PInt 1)])"
    by (simp add: stray_key_compute_def)
  have b: "''nope'' \<in> fst ` set [(''out'', PInt 6), (''nope'', PInt 1)]" by simp
  have c: "map_of (outputs (nodes example_heap 0)) ''nope'' = None"
    by (simp add: example_defs)
  have d: "map_of (outputs (nodes example_heap 0)) ''out'' \<noteq> None"
    by (simp add: example_defs)
  from evaluate_unknown_key_KeyError [of stray_key_compute 0 example_heap, OF a b c] obtain k' h' where
    e: "evaluate stray_key_compute 0 example_heap = Inl (KeyError (PStr k'), h')"
    and k: "k' \<in> fst ` set [(''out'', PInt 6), (''nope'', PInt 1)]"
    and n: "map_of (outputs (nodes example_heap 0)) k' = None" by blast
  from k n d have "k' = ''nope''" by auto
  with e show ?thesis by (simp add: raised_def)
qed

text \<open>C6 as stated fails: for the result \<open>{'out': 6, 'nope': 1}\<close> the exception is
  \<open>KeyError('nope')\<close>, not \<open>UnknownOutputError\<close>.\<close>

theorem evaluate_unknown_key_not_UnknownOutputError:
  "raised (evaluate stray_key_compute 0 example_heap) = Some (KeyError (PStr ''nope'')) \<and>
   raised (evaluate stray_key_compute 0 example_heap) \<noteq> Some UnknownOutputError"
  by (simp add: evaluate_def stray_key_compute_def raised_def example_defs)

text \<open>C7, as the code has it, for a document that is a dictionary \<open>d\<close>.
  \<^item> Without \<open>'name'\<close>: \<open>KeyError('name')\<close>, in the store as it was.
  \<^item> With \<open>'name'\<close> and without \<open>'identifier'\<close>: \<open>KeyError('identifier')\<close>; the name is
    already overwritten.
  \<^item> With both and without \<open>'inputs'\<close>: \<open>KeyError('inputs')\<close>; name and identifier are
    already overwritten.
  \<^item> With the three fields, \<open>'inputs'\<close> being a list in which the entries \<open>pre\<close> are
    \<open>{name, value}\<close> documents of input plugs of the node and the next entry \<open>x\<close> is a
    \<open>{name, value}\<close> document whose name \<open>k\<close> is no input plug of the node (whatever
    follows): \<open>KeyError(k)\<close>.
  No case raises \<open>SerializationError\<close>.\<close>

theorem deserialize_malformed_KeyError:
  "(map_of d ''name'' = None \<longrightarrow>
      deserialize self (PDict d) h = Inl (KeyError (PStr ''name''), h)) \<and>
   (map_of d ''name'' = Some nm \<and> map_of d ''identifier'' = None \<longrightarrow>
      deserialize self (PDict d) h = Inl (KeyError (PStr ''identifier''), set_name self nm h)) \<and>
   (map_of d ''name'' = Some nm \<and> map_of d ''identifier'' = Some i \<and>
    map_of d ''inputs'' = None \<longrightarrow>
      deserialize self (PDict d) h =
        Inl (KeyError (PStr ''inputs''), set_identifier self i (set_name self nm h))) \<and>
   (map_of d ''name'' = Some nm \<and> map_of d ''identifier'' = Some i \<and>
    map_of d ''inputs'' = Some (PList (pre @ x # rest)) \<and>
    map plug_doc pre = map Some kvs \<and>
    (\<forall>k'\<in>fst ` set kvs. map_of (inputs (nodes h self)) k' \<noteq> None) \<and>
    plug_doc x = Some (k, v) \<and> map_of (inputs (nodes h self)) k = None \<longrightarrow>
      (\<exists>h'. deserialize self (PDict d) h = Inl (KeyError (PStr k), h')))"
proof (intro conjI impI)
  assume "map_of d ''name'' = None"
  then show "deserialize self (PDict d) h = Inl (KeyError (PStr ''name''), h)"
    by (simp add: deserialize_def)
next
  assume "map_of d ''name'' = Some nm \<and> map_of d ''identifier'' = None"
  then show "deserialize self (PDict d) h =
               Inl (KeyError (PStr ''identifier''), set_name self nm h)"
    by (simp add: deserialize_def)
next
  assume "map_of d ''name'' = Some nm \<and> map_of d ''identifier'' = Some i \<and>
          map_of d ''inputs'' = None"
  then show "deserialize self (PDict d) h =
               Inl (KeyError (PStr ''inputs''), set_identifier self i (set_name self nm h))"
    by (simp add: deserialize_def)
next
  let ?h2 = "set_identifier self i (set_name self nm h)"
  assume a: "map_of d ''name'' = Some nm \<and> map_of d ''identifier'' = Some i \<and>
    map_of d ''inputs'' = Some (PList (pre @ x # rest)) \<and>
    map plug_doc pre = map Some kvs \<and>
    (\<forall>k'\<in>fst ` set kvs. map_of (inputs (nodes h self)) k' \<noteq> None) \<and>
    plug_doc x = Some (k, v) \<and> map_of (inputs (nodes h self)) k = None"
  then have pre: "map plug_doc pre = map Some kvs" and x: "plug_doc x = Some (k, v)"
    and known: "\<forall>k'\<in>fst ` set kvs. map_of (inputs (nodes ?h2 self)) k' \<noteq> None"
    and unknown: "map_of (inputs (nodes ?h2 self)) k = None"
    by simp_all
  from deserialize_inputs_first_unknown [OF pre known x unknown, of rest]
  obtain h' where "deserialize_inputs self (pre @ x # rest) ?h2 = Inl (KeyError (PStr k), h')"
    by blast
  with a have "deserialize self (PDict d) h = Inl (KeyError (PStr k), h')"
    by (simp add: deserialize_def)
  then show "\<exists>h'. deserialize self (PDict d) h = Inl (KeyError (PStr k), h')" ..
qed

text \<open>Four documents for \<open>Start\<close>: without \<open>name\<close>, without \<open>identifier\<close>, without
  \<open>inputs\<close>, and with the inputs \<open>in1\<close>, then \<open>in9\<close>, which \<open>Start\<close> does not have, then an
  entry that is no document at all.\<close>

theorem deserialize_malformed_KeyError_witness:
  "raised (deserialize 0 (PDict [(''identifier'', PStr ''a''), (''inputs'', PList [])])
             example_heap) = Some (KeyError (PStr ''name'')) \<and>
   raised (deserialize 0 (PDict [(''name'', PStr ''a''), (''inputs'', PList [])])
             example_heap) = Some (KeyError (PStr ''identifier'')) \<and>
   raised (deserialize 0 (PDict [(''name'', PStr ''a''), (''identifier'', PStr ''b'')])
             example_heap) = Some (KeyError (PStr ''inputs'')) \<and>
   raised (deserialize 0
             (PDict [(''name'', PStr ''a''), (''identifier'', PStr ''b''),
                     (''inputs'', PList [PDict [(''name'', PStr ''in1''), (''value'', PInt 7)],
                                         PDict [(''name'', PStr ''in9''), (''value'', PInt 8)],
                                         PInt 5])])
             example_heap) = Some (KeyError (PStr ''in9''))"
proof -
  let ?d1 = "[(''identifier'', PStr ''a''), (''inputs'', PList [])]"
  let ?d2 = "[(''name'', PStr ''a''), (''inputs'', PList [])]"
  let ?d3 = "[(''name'', PStr ''a''), (''identifier'', PStr ''b'')]"
  let ?pre = "[PDict [(''name'', PStr ''in1''), (''value'', PInt 7)]]"
  let ?x = "PDict [(''name'', PStr ''in9''), (''value'', PInt 8)]"
  let ?d4 = "[(''name'', PStr ''a''), (''identifier'', PStr ''b''),
              (''inputs'', PList (?pre @ ?x # [PInt 5]))]"
  have a1: "raised (deserialize 0 (PDict ?d1) example_heap) = Some (KeyError (PStr ''name''))"
    using deserialize_malformed_KeyError
            [where d = ?d1 and self = 0 and h = example_heap, THEN conjunct1]
    by (simp add: raised_def)
  have a2: "raised (deserialize 0 (PDict ?d2) example_heap) = Some (KeyError (PStr ''identifier''))"
    using deserialize_malformed_KeyError
            [where d = ?d2 and self = 0 and h = example_heap and nm = "PStr ''a''",
             THEN conjunct2, THEN conjunct1]
    by (simp add: raised_def)
  have a3: "raised (deserialize 0 (PDict ?d3) example_heap) = Some (KeyError (PStr ''inputs''))"
    using deserialize_malformed_KeyError
            [where d = ?d3 and self = 0 and h = example_heap and nm = "PStr ''a''"
               and i = "PStr ''b''", THEN conjunct2, THEN conjunct2, THEN conjunct1]
    by (simp add: raised_def)
  have in1: "map_of (inputs (nodes example_heap 0)) ''in1'' \<noteq> None"
    and in9: "map_of (inputs (nodes example_heap 0)) ''in9'' = None"
    by (simp_all add: example_defs)
  have "\<exists>h'. deserialize 0 (PDict ?d4) example_heap = Inl (KeyError (PStr ''in9''), h')"
    using deserialize_malformed_KeyError
            [where d = ?d4 and self = 0 and h = example_heap and nm = "PStr ''a''"
               and i = "PStr ''b''" and pre = ?pre and x = ?x and rest = "[PInt 5]"
               and kvs = "[(''in1'', PInt 7)]" and k = "''in9''" and v = "PInt 8",
             THEN conjunct2, THEN conjunct2, THEN conjunct2]
          in1 in9
    by simp
  then have a4: "raised (deserialize 0 (PDict ?d4) example_heap) = Some (KeyError (PStr ''in9''))"
    by (auto simp add: raised_def)
  from a1 a2 a3 a4 show ?thesis by simp
qed

text \<open>C7 as stated fails: the empty document makes \<open>deserialize\<close> raise \<open>KeyError('name')\<close>,
  not \<open>SerializationError\<close>.\<close>

theorem deserialize_malformed_not_SerializationError:
  "raised (deserialize 0 (PDict []) example_heap) = Some (KeyError (PStr ''name'')) \<and>
   raised (deserialize 0 (PDict []) example_heap) \<noteq> Some SerializationError"
  by (simp add: deserialize_def raised_def)

text \<open>C8: \<open>upstream_nodes\<close> holds every owner of a plug connected to one of the node's input
  plugs, and nothing else, each once; \<open>downstream_nodes\<close> the same for the output plugs.
  Both are functions of the store, computed from the connections at every read.\<close>

theorem neighbour_nodes_once:
  "distinct (upstream_nodes self h) \<and>
   set (upstream_nodes self h) =
     {plug_node (plugs h c) | c p. p \<in> set (map snd (inputs (nodes h self))) \<and>
                                   c \<in> set (plug_connections (plugs h p))} \<and>
   distinct (downstream_nodes self h) \<and>
   set (downstream_nodes self h) =
     {plug_node (plugs h c) | c p. p \<in> set (map snd (outputs (nodes h self))) \<and>
                                   c \<in> set (plug_connections (plugs h p))}"
  by (simp add: upstream_nodes_def downstream_nodes_def list_of_set_def set_collect_nodes
                node_of_def connections_def)

text \<open>\<open>Start\<close> and \<open>Node1\<close> are connected twice, and each lists the other once.\<close>

theorem neighbour_nodes_once_witness:
  "downstream_nodes 0 example_heap = [1] \<and> upstream_nodes 1 example_heap = [0] \<and>
   distinct (downstream_nodes 0 example_heap) \<and> distinct (upstream_nodes 1 example_heap)"
proof -
  have down: "downstream_nodes 0 example_heap = [1]"
    by (simp add: example_defs downstream_nodes_def list_of_set_def node_of_def connections_def)
  have up: "upstream_nodes 1 example_heap = [0]"
    by (simp add: example_defs upstream_nodes_def list_of_set_def node_of_def connections_def)
  have d_down: "distinct (downstream_nodes 0 example_heap)"
    using neighbour_nodes_once [of 0 example_heap] by (elim conjE)
  have d_up: "distinct (upstream_nodes 1 example_heap)"
    using neighbour_nodes_once [of 1 example_heap] by (elim conjE)
  show ?thesis
    by (intro conjI) (rule down up d_down d_up)+
qed

text \<open>C9, as the code has it. A well-formed document: a dictionary with \<open>name\<close>,
  \<open>identifier\<close> and a list \<open>inputs\<close> of plug documents that name input plugs of the node.
  \<open>deserialize\<close> returns, and in the store it leaves
  \<^item> the node has the name and the identifier of the document and is otherwise the node
    it was (same \<open>inputs\<close> and \<open>outputs\<close> dictionaries); every other node is as it was;
  \<^item> every plug has the name, the owner and the connections it had;
  \<^item> every plug that is not an input plug named in the document holds the value it held;
  \<^item> the log is as it was;
  \<^item> no dirty flag is cleared, and every input plug named in the document and every plug
    connected to an output plug of the owner of such a plug is dirty: the assignment of
    a value marks the plug dirty and runs the owner's \<open>on_input_plug_set_dirty\<close>.\<close>

theorem deserialize_frame:
  assumes "map_of d ''name'' = Some nm" and "map_of d ''identifier'' = Some i"
    and "map_of d ''inputs'' = Some (PList docs)"
    and "map plug_doc docs = map Some kvs"
    and "\<forall>k\<in>fst ` set kvs. map_of (inputs (nodes h self)) k \<noteq> None"
  shows "\<exists>h'. deserialize self (PDict d) h = Inr h' \<and>
           nodes h' = (nodes h)(self := (nodes h self)\<lparr>node_name := nm, node_identifier := i\<rparr>) \<and>
           messages h' = messages h \<and>
           (\<forall>q. plug_name (plugs h' q) = plug_name (plugs h q) \<and>
                plug_node (plugs h' q) = plug_node (plugs h q) \<and>
                plug_connections (plugs h' q) = plug_connections (plugs h q)) \<and>
           (\<forall>q. (\<forall>k\<in>fst ` set kvs. map_of (inputs (nodes h self)) k \<noteq> Some q) \<longrightarrow>
                plug_value (plugs h' q) = plug_value (plugs h q)) \<and>
           (\<forall>q. plug_is_dirty (plugs h q) \<longrightarrow> plug_is_dirty (plugs h' q)) \<and>
           (\<forall>k\<in>fst ` set kvs. \<forall>p. map_of (inputs (nodes h self)) k = Some p \<longrightarrow>
              plug_is_dirty (plugs h' p) \<and>
              (\<forall>o'\<in>set (map snd (outputs (nodes h (plug_node (plugs h p))))).
                 \<forall>c\<in>set (plug_connections (plugs h o')). plug_is_dirty (plugs h' c)))"
proof -
  let ?h2 = "set_identifier self i (set_name self nm h)"
  from assms(5) have known: "\<forall>k\<in>fst ` set kvs. map_of (inputs (nodes ?h2 self)) k \<noteq> None"
    by simp
  from deserialize_inputs_succeeds [OF assms(4) known]
  obtain h' where run: "deserialize_inputs self docs ?h2 = Inr h'" by blast
  have des: "deserialize self (PDict d) h = Inr h'"
    using run assms(1-3) by (simp add: deserialize_def)
  note frame = deserialize_inputs_frame [OF assms(4) run]
  have "nodes ?h2 = (nodes h)(self := (nodes h self)\<lparr>node_name := nm, node_identifier := i\<rparr>)"
    by (rule ext) simp
  with frame have nodes:
    "nodes h' = (nodes h)(self := (nodes h self)\<lparr>node_name := nm, node_identifier := i\<rparr>)"
    by simp
  from frame have msgs: "messages h' = messages h" by simp
  have shape: "plug_name (plugs h' q) = plug_name (plugs h q) \<and>
               plug_node (plugs h' q) = plug_node (plugs h q) \<and>
               plug_connections (plugs h' q) = plug_connections (plugs h q)" for q
  proof -
    from frame have "connections h' q = connections ?h2 q" "node_of h' q = node_of ?h2 q"
      "plug_name (plugs h' q) = plug_name (plugs ?h2 q)" by simp_all
    then show ?thesis by (simp add: connections_def node_of_def)
  qed
  have vals: "plug_value (plugs h' q) = plug_value (plugs h q)"
    if "\<forall>k\<in>fst ` set kvs. map_of (inputs (nodes h self)) k \<noteq> Some q" for q
  proof -
    from that have "\<forall>k\<in>fst ` set kvs. map_of (inputs (nodes ?h2 self)) k \<noteq> Some q" by simp
    from deserialize_inputs_untouched [OF assms(4) run this]
    show ?thesis by (simp add: get_value_def)
  qed
  have dirty: "plug_is_dirty (plugs h' q) \<longleftrightarrow>
                plug_is_dirty (plugs h q) \<or>
                (\<exists>k\<in>fst ` set kvs. \<exists>p. map_of (inputs (nodes h self)) k = Some p \<and>
                   (q = p \<or> (\<exists>o'\<in>set (map snd (outputs (nodes h (plug_node (plugs h p))))).
                              q \<in> set (plug_connections (plugs h o')))))" for q
    using deserialize_inputs_dirty [OF assms(4) run, of q]
    by (simp only: set_name_dicts set_identifier_dicts set_name_frame(1)
                   set_identifier_frame(1) get_is_dirty_def node_of_def connections_def)
  have kept: "\<forall>q. plug_is_dirty (plugs h q) \<longrightarrow> plug_is_dirty (plugs h' q)"
    by (simp add: dirty)
  have marked: "\<forall>k\<in>fst ` set kvs. \<forall>p. map_of (inputs (nodes h self)) k = Some p \<longrightarrow>
              plug_is_dirty (plugs h' p) \<and>
              (\<forall>o'\<in>set (map snd (outputs (nodes h (plug_node (plugs h p))))).
                 \<forall>c\<in>set (plug_connections (plugs h o')). plug_is_dirty (plugs h' c))"
    unfolding dirty by blast
  from des nodes msgs shape vals kept marked show ?thesis by blast
qed


text \<open>\<open>same_doc\<close> read into \<open>Start\<close>: \<open>Node1\<close> and the output dictionary of \<open>Start\<close> are as
  they were, \<open>in1\<close> and \<open>out\<close> hold what they held and \<open>out\<close> has the connection it had;
  \<open>in1\<close> of \<open>Start\<close>, dirty before, is dirty, and so are \<open>in2\<close> of \<open>Start\<close> and the two
  input plugs of \<open>Node1\<close>, which are connected to the outputs of \<open>Start\<close>.\<close>

theorem deserialize_frame_witness:
  "\<exists>h'. deserialize 0 same_doc example_heap = Inr h' \<and>
        nodes h' 1 = nodes example_heap 1 \<and>
        outputs (nodes h' 0) = outputs (nodes example_heap 0) \<and>
        plug_value (plugs h' 2) = PInt 2 \<and> plug_value (plugs h' 0) = PNone \<and>
        plug_connections (plugs h' 0) = [6] \<and>
        plug_is_dirty (plugs h' 2) \<and> plug_is_dirty (plugs h' 3) \<and>
        plug_is_dirty (plugs h' 6) \<and> plug_is_dirty (plugs h' 7)"
proof -
  let ?d = "[(''module'', PStr ''conftest''), (''cls'', PStr ''NodeForTesting''),
             (''name'', PStr ''Start''), (''identifier'', PStr ''Start-0001''),
             (''inputs'', PList [PDict [(''name'', PStr ''in2''), (''value'', PInt 3)]]),
             (''outputs'', PList [])]"
  let ?docs = "[PDict [(''name'', PStr ''in2''), (''value'', PInt 3)]]"
  let ?kvs = "[(''in2'', PInt 3)]"
  have ins0: "inputs (nodes example_heap 0) = [(''in1'', 2), (''in2'', 3)]"
    and outs0: "outputs (nodes example_heap 0) = [(''out'', 0), (''out2'', Suc 0)]"
    and owner: "plug_node (plugs example_heap 3) = 0"
    and conns: "plug_connections (plugs example_heap 0) = [6]"
               "plug_connections (plugs example_heap (Suc 0)) = [7]"
    and vals: "plug_value (plugs example_heap 2) = PInt 2" "plug_value (plugs example_heap 0) = PNone"
    and flags: "\<not> plug_is_dirty (plugs example_heap 3)" "\<not> plug_is_dirty (plugs example_heap 6)"
               "\<not> plug_is_dirty (plugs example_heap 7)" "plug_is_dirty (plugs example_heap 2)"
    by (simp_all add: example_defs)
  have a1: "map_of ?d ''name'' = Some (PStr ''Start'')"
    and a2: "map_of ?d ''identifier'' = Some (PStr ''Start-0001'')"
    and a3: "map_of ?d ''inputs'' = Some (PList ?docs)"
    and a4: "map plug_doc ?docs = map Some ?kvs"
    by simp_all
  have a5: "\<forall>k\<in>fst ` set ?kvs. map_of (inputs (nodes example_heap 0)) k \<noteq> None"
    by (simp add: ins0)
  from deserialize_frame [of ?d "PStr ''Start''" "PStr ''Start-0001''" ?docs ?kvs example_heap 0,
                          OF a1 a2 a3 a4 a5]
  obtain h' where des: "deserialize 0 (PDict ?d) example_heap = Inr h'"
    and nodes: "nodes h' = (nodes example_heap)
                  (0 := (nodes example_heap 0)\<lparr>node_name := PStr ''Start'',
                                               node_identifier := PStr ''Start-0001''\<rparr>)"
    and shape: "\<forall>q. plug_name (plugs h' q) = plug_name (plugs example_heap q) \<and>
                    plug_node (plugs h' q) = plug_node (plugs example_heap q) \<and>
                    plug_connections (plugs h' q) = plug_connections (plugs example_heap q)"
    and kept: "\<forall>q. (\<forall>k\<in>fst ` set ?kvs. map_of (inputs (nodes example_heap 0)) k \<noteq> Some q) \<longrightarrow>
                    plug_value (plugs h' q) = plug_value (plugs example_heap q)"
    and kept_dirty: "\<forall>q. plug_is_dirty (plugs example_heap q) \<longrightarrow> plug_is_dirty (plugs h' q)"
    and marked: "\<forall>k\<in>fst ` set ?kvs. \<forall>p. map_of (inputs (nodes example_heap 0)) k = Some p \<longrightarrow>
                   plug_is_dirty (plugs h' p) \<and>
                   (\<forall>o'\<in>set (map snd (outputs (nodes example_heap
                                                (plug_node (plugs example_heap p))))).
                      \<forall>c\<in>set (plug_connections (plugs example_heap o')).
                        plug_is_dirty (plugs h' c))"
    by (elim exE conjE) (rule that)
  from des have w0: "deserialize 0 same_doc example_heap = Inr h'" by (simp add: same_doc_def)
  from nodes have w1: "nodes h' 1 = nodes example_heap 1"
    and w2: "outputs (nodes h' 0) = outputs (nodes example_heap 0)" by simp_all
  from kept have w3: "plug_value (plugs h' 2) = PInt 2" and w4: "plug_value (plugs h' 0) = PNone"
    by (simp_all add: ins0 vals)
  from shape have w5: "plug_connections (plugs h' 0) = [6]" by (simp add: conns)
  from marked have w6: "plug_is_dirty (plugs h' 3)" and w7: "plug_is_dirty (plugs h' 6)"
    and w8: "plug_is_dirty (plugs h' 7)"
    by (simp_all add: ins0 owner outs0 conns)
  from kept_dirty flags(4) have w9: "plug_is_dirty (plugs h' 2)" by simp
  from w0 w1 w2 w3 w4 w5 w6 w7 w8 w9 show ?thesis by blast
qed

text \<open>C9 as stated fails: \<open>same_doc\<close> read into \<open>Start\<close> changes neither its name, nor its
  identifier, nor the value of an input plug, and yet the store is not the one it was:
  \<open>in2\<close> of \<open>Start\<close> and \<open>in1\<close> of \<open>Node1\<close>, clean before, are dirty after.\<close>

theorem deserialize_changes_dirty_flags:
  "raised (deserialize 0 same_doc example_heap) = None \<and>
   \<not> plug_is_dirty (plugs example_heap 3) \<and>
   plug_is_dirty (plugs (store_after (deserialize 0 same_doc example_heap)) 3) \<and>
   \<not> plug_is_dirty (plugs example_heap 6) \<and>
   plug_is_dirty (plugs (store_after (deserialize 0 same_doc example_heap)) 6)"
proof -
  let ?h2 = "set_identifier 0 (PStr ''Start-0001'') (set_name 0 (PStr ''Start'') example_heap)"
  have lookup: "map_of (inputs (nodes example_heap 0)) ''in2'' = Some 3"
    and outs0: "outputs (nodes example_heap 0) = [(''out'', 0), (''out2'', Suc 0)]"
    and owner: "node_of example_heap 3 = 0"
    and conns: "connections example_heap 0 = [6]"
    and flags: "\<not> plug_is_dirty (plugs example_heap 3)" "\<not> plug_is_dirty (plugs example_heap 6)"
    by (simp_all add: example_defs node_of_def connections_def)
  have e: "deserialize 0 same_doc example_heap = Inr (input_set_value 3 (PInt 3) ?h2)"
    by (simp add: same_doc_def deserialize_def lookup)
  have d3: "get_is_dirty (input_set_value 3 (PInt 3) ?h2) 3"
    by (simp add: get_is_dirty_input_set_value)
  have d6: "get_is_dirty (input_set_value 3 (PInt 3) ?h2) 6"
    by (simp add: get_is_dirty_input_set_value owner outs0 conns)
  from d3 d6 flags show ?thesis
    by (simp add: e raised_def store_after_def get_is_dirty_def)
qed

text \<open>C10: whenever \<open>compute\<close> returns a result whose keys all name output plugs of the
  node (a dictionary, or \<open>None\<close> or another empty result, for which \<open>d\<close> is empty),
  \<open>evaluate\<close> returns, and the store it returns is the store the output writes leave
  (\<open>h1\<close>: same plug values, same dirty flags outside the node's inputs) with every input
  plug of the node clean: the node is not dirty. The flags are cleared after the outputs
  are written, so a flag the writes set on one of the node's own inputs is cleared too.
  Nothing is assumed about the connections.\<close>

theorem evaluate_leaves_node_clean:
  assumes "compute (read_inputs self h) = Inr r"
    and "(if py_truthy r then r else PDict []) = PDict d"
    and "\<forall>k\<in>fst ` set d. map_of (outputs (nodes h self)) k \<noteq> None"
  shows "\<exists>h1 h'. write_outputs self d h = Inr h1 \<and>
           evaluate compute self h = Inr (PDict d, h') \<and>
           (\<forall>q. plug_value (plugs h' q) = plug_value (plugs h1 q)) \<and>
           (\<forall>q. q \<notin> snd ` set (inputs (nodes h self)) \<longrightarrow>
                plug_is_dirty (plugs h' q) = plug_is_dirty (plugs h1 q)) \<and>
           (\<forall>p\<in>snd ` set (inputs (nodes h self)). \<not> plug_is_dirty (plugs h' p)) \<and>
           \<not> is_dirty self h'"
proof -
  from write_outputs_succeeds [of d h self] assms(3)
  obtain h1 where w: "write_outputs self d h = Inr h1" by blast
  define h' where "h' = push_message (Computed (node_name (nodes h1 self))) (clean_inputs self h1)"
  from write_outputs_frame [OF w] have fr: "nodes h1 = nodes h" by simp
  have ev: "evaluate compute self h = Inr (PDict d, h')"
    using assms(1,2) w by (simp add: evaluate_Inr_iff h'_def)
  have vals: "\<forall>q. plug_value (plugs h' q) = plug_value (plugs h1 q)"
    by (simp add: h'_def get_value_def [symmetric])
  have flag: "plug_is_dirty (plugs h' q) =
                (if q \<in> snd ` set (inputs (nodes h self)) then False
                 else plug_is_dirty (plugs h1 q))" for q
    using get_is_dirty_clean_inputs [of self h1 q]
    by (simp add: h'_def fr get_is_dirty_def)
  have others: "\<forall>q. q \<notin> snd ` set (inputs (nodes h self)) \<longrightarrow>
                  plug_is_dirty (plugs h' q) = plug_is_dirty (plugs h1 q)"
    by (simp add: flag)
  have clean: "\<forall>p\<in>snd ` set (inputs (nodes h self)). \<not> plug_is_dirty (plugs h' p)"
    by (simp add: flag)
  have node: "\<not> is_dirty self h'"
    by (simp add: h'_def is_dirty_clean_inputs)
  from w ev vals others clean node show ?thesis by blast
qed

text \<open>\<open>Start\<close> in the store with feedback, with the \<open>compute\<close> of \<open>NodeForTesting\<close>. \<open>Start\<close> is
  dirty (\<open>in1\<close>), \<open>in2\<close> is clean. The writes of \<open>{'out': 6, 'out2': None}\<close> push 6 into
  \<open>in1\<close> and make \<open>in2\<close> dirty (through the hook of \<open>Node1\<close>). In the store \<open>evaluate\<close> returns
  \<open>out\<close> and \<open>in1\<close> hold 6, \<open>in1\<close> and \<open>in2\<close> are clean and \<open>Start\<close> is not dirty.\<close>

theorem evaluate_leaves_node_clean_witness:
  "is_dirty 0 feedback_heap \<and> \<not> plug_is_dirty (plugs feedback_heap 3) \<and>
   (\<exists>h1 h'. write_outputs 0 [(''out'', PInt 6), (''out2'', PNone)] feedback_heap = Inr h1 \<and>
       plug_is_dirty (plugs h1 2) \<and> plug_is_dirty (plugs h1 3) \<and>
       evaluate testing_compute 0 feedback_heap =
         Inr (PDict [(''out'', PInt 6), (''out2'', PNone)], h') \<and>
       plug_value (plugs h' 0) = PInt 6 \<and> plug_value (plugs h' 2) = PInt 6 \<and>
       \<not> plug_is_dirty (plugs h' 2) \<and> \<not> plug_is_dirty (plugs h' 3) \<and>
       \<not> is_dirty 0 h')"
proof -
  let ?d = "[(''out'', PInt 6), (''out2'', PNone)]"
  let ?H1 = "output_set_value (Suc 0) PNone (output_set_value 0 (PInt 6) feedback_heap)"
  note defs = feedback_heap_def feedback_plugs_def example_nodes_def testing_node_def mk_plug_def
  have ins: "inputs (nodes feedback_heap 0) = [(''in1'', 2), (''in2'', 3)]"
    and outs: "outputs (nodes feedback_heap 0) = [(''out'', 0), (''out2'', Suc 0)]"
    and outs1: "outputs (nodes feedback_heap (Suc 0)) = [(''out'', 4), (''out2'', 5)]"
    and conns: "connections feedback_heap 0 = [2, 6]" "connections feedback_heap (Suc 0) = []"
               "connections feedback_heap 4 = [3]" "connections feedback_heap 5 = []"
    and owners: "node_of feedback_heap 2 = 0" "node_of feedback_heap 6 = Suc 0"
    and before: "plug_is_dirty (plugs feedback_heap 2)" "\<not> plug_is_dirty (plugs feedback_heap 3)"
    by (simp_all add: defs connections_def node_of_def)
  have dirty0: "is_dirty 0 feedback_heap"
    by (simp add: is_dirty_def ins get_is_dirty_def before)
  have c: "testing_compute (read_inputs 0 feedback_heap) = Inr (PDict ?d)"
    by (simp add: testing_compute_def py_mul_def read_inputs_def get_value_def defs)
  have t: "(if py_truthy (PDict ?d) then PDict ?d else PDict []) = PDict ?d" by simp
  have k: "\<forall>k\<in>fst ` set ?d. map_of (outputs (nodes feedback_heap 0)) k \<noteq> None"
    by (simp add: outs)
  have w: "write_outputs 0 ?d feedback_heap = Inr ?H1"
    by (simp add: outs)
  have h1_2: "get_is_dirty ?H1 2" and h1_3: "get_is_dirty ?H1 3"
    by (simp_all add: get_is_dirty_output_set_value conns owners outs outs1)
  have v0: "get_value ?H1 0 = PInt 6" and v2: "get_value ?H1 2 = PInt 6"
    by (simp_all add: get_value_output_set_value conns)
  from evaluate_leaves_node_clean [of testing_compute 0 feedback_heap "PDict ?d" ?d, OF c t k]
  obtain h1 h' where
    w': "write_outputs 0 ?d feedback_heap = Inr h1"
    and ev: "evaluate testing_compute 0 feedback_heap = Inr (PDict ?d, h')"
    and vals: "\<forall>q. plug_value (plugs h' q) = plug_value (plugs h1 q)"
    and clean: "\<forall>p\<in>snd ` set (inputs (nodes feedback_heap 0)). \<not> plug_is_dirty (plugs h' p)"
    and node: "\<not> is_dirty 0 h'"
    by (elim exE conjE) (rule that)
  from w w' have h1: "h1 = ?H1" by simp
  from h1_2 h1_3 have a: "plug_is_dirty (plugs h1 2)" "plug_is_dirty (plugs h1 3)"
    by (simp_all add: h1 get_is_dirty_def)
  from vals v0 v2 have b: "plug_value (plugs h' 0) = PInt 6" "plug_value (plugs h' 2) = PInt 6"
    by (simp_all add: h1 get_value_def)
  from clean have e: "\<not> plug_is_dirty (plugs h' 2)" "\<not> plug_is_dirty (plugs h' 3)"
    by (simp_all add: ins)
  from w' a ev b e node
  have "\<exists>h1 h'. write_outputs 0 ?d feedback_heap = Inr h1 \<and>
       plug_is_dirty (plugs h1 2) \<and> plug_is_dirty (plugs h1 3) \<and>
       evaluate testing_compute 0 feedback_heap = Inr (PDict ?d, h') \<and>
       plug_value (plugs h' 0) = PInt 6 \<and> plug_value (plugs h' 2) = PInt 6 \<and>
       \<not> plug_is_dirty (plugs h' 2) \<and> \<not> plug_is_dirty (plugs h' 3) \<and>
       \<not> is_dirty 0 h'"
    by blast
  with dirty0 before(2) show ?thesis by blast
qed

end
